theory Spec2Isabelle
  imports Complex_Main
begin

text \<open>
  A model of \<^verbatim>\<open>generate.py\<close>: the acquisition of the collision sound, the simulation
  loop with its clock and its record of collision times, and the synthesis of the audio
  track. The physics engine (\<^verbatim>\<open>pymunk\<close>) is a parameter; the audio library (\<^verbatim>\<open>pydub\<close>)
  is modelled from the specification; drawing and the calls of \<^verbatim>\<open>ffmpeg\<close> are left out.
\<close>

section \<open>Python floats\<close>

text \<open>
  A Python \<^verbatim>\<open>float\<close> is an IEEE 754 binary64 number. A finite float is modelled by the
  real number it denotes (the two zeros are identified: nothing in \<^verbatim>\<open>generate.py\<close> tells
  them apart), next to the two infinities and NaN. Every arithmetic operation computes
  the exact real result and rounds it to the nearest double, ties to even
  (\<open>round_to_double\<close>); a result that rounds to magnitude \<open>2 ^ 1024\<close> or more is an
  infinity.
\<close>

text \<open>\<open>log2f n\<close> is \<open>\<lfloor>log\<^sub>2 n\<rfloor>\<close> for \<open>n > 0\<close>.\<close>

fun log2f :: "nat \<Rightarrow> nat" where
  "log2f n = (if n < 2 then 0 else Suc (log2f (n div 2)))"

declare log2f.simps [simp del]

text \<open>\<open>float_exponent x\<close> is \<open>\<lfloor>log\<^sub>2 x\<rfloor>\<close> for real \<open>x > 0\<close>: see \<open>float_exponent_bounds\<close>.\<close>

definition float_exponent :: "real \<Rightarrow> int" where
  "float_exponent x =
     (if 1 \<le> x then int (log2f (nat \<lfloor>x\<rfloor>))
      else - int (Suc (log2f (nat \<lceil>1 / x\<rceil> - 1))))"

definition round_half_even :: "real \<Rightarrow> int" where
  "round_half_even y =
     (let f = \<lfloor>y\<rfloor>; d = y - of_int f
      in if d < 1 / 2 then f else if 1 / 2 < d then f + 1 else if even f then f else f + 1)"

text \<open>
  The spacing of the doubles around \<open>x\<close>: 52 fraction bits below the exponent of \<open>x\<close>,
  and the fixed spacing \<open>2 ^ - 1074\<close> of the subnormal numbers below \<open>2 ^ - 1022\<close>.
\<close>

definition binade :: "real \<Rightarrow> int" where
  "binade x = max (float_exponent \<bar>x\<bar>) (- 1022)"

definition ulp_of :: "real \<Rightarrow> real" where
  "ulp_of x = 2 powi (binade x - 52)"

definition round_to_double :: "real \<Rightarrow> real" where
  "round_to_double x =
     (if x = 0 then 0
      else sgn x * (of_int (round_half_even (\<bar>x\<bar> / ulp_of x)) * ulp_of x))"

datatype pyfloat = Finite real | PosInf | NegInf | NaN

definition to_double :: "real \<Rightarrow> pyfloat" where
  "to_double x =
     (let y = round_to_double x
      in if 2 ^ 1024 \<le> \<bar>y\<bar> then (if 0 < y then PosInf else NegInf) else Finite y)"

text \<open>\<^verbatim>\<open>a + b\<close> on floats.\<close>

fun fadd :: "pyfloat \<Rightarrow> pyfloat \<Rightarrow> pyfloat" where
  "fadd (Finite a) (Finite b) = to_double (a + b)"
| "fadd NaN _ = NaN"
| "fadd _ NaN = NaN"
| "fadd PosInf NegInf = NaN"
| "fadd NegInf PosInf = NaN"
| "fadd PosInf _ = PosInf"
| "fadd _ PosInf = PosInf"
| "fadd NegInf _ = NegInf"
| "fadd _ NegInf = NegInf"

text \<open>\<^verbatim>\<open>a * b\<close> on floats.\<close>

definition inf_of_sign :: "real \<Rightarrow> pyfloat" where
  "inf_of_sign s = (if s = 0 then NaN else if 0 < s then PosInf else NegInf)"

fun fmul :: "pyfloat \<Rightarrow> pyfloat \<Rightarrow> pyfloat" where
  "fmul (Finite a) (Finite b) = to_double (a * b)"
| "fmul NaN _ = NaN"
| "fmul _ NaN = NaN"
| "fmul (Finite a) PosInf = inf_of_sign a"
| "fmul (Finite a) NegInf = inf_of_sign (- a)"
| "fmul PosInf (Finite b) = inf_of_sign b"
| "fmul NegInf (Finite b) = inf_of_sign (- b)"
| "fmul PosInf PosInf = PosInf"
| "fmul NegInf NegInf = PosInf"
| "fmul PosInf NegInf = NegInf"
| "fmul NegInf PosInf = NegInf"

text \<open>\<^verbatim>\<open>a <= b\<close> on floats: false whenever a NaN is involved.\<close>

fun fle :: "pyfloat \<Rightarrow> pyfloat \<Rightarrow> bool" where
  "fle (Finite a) (Finite b) = (a \<le> b)"
| "fle NaN _ = False"
| "fle _ NaN = False"
| "fle NegInf _ = True"
| "fle _ PosInf = True"
| "fle _ _ = False"

datatype error = ZeroDivisionError | OverflowError | ValueError | FileNotFoundError

text \<open>
  \<^verbatim>\<open>int(x)\<close> for a float \<^verbatim>\<open>x\<close>: truncation towards zero; Python raises
  \<^verbatim>\<open>OverflowError\<close> on an infinity and \<^verbatim>\<open>ValueError\<close> on NaN.
\<close>

fun py_int :: "pyfloat \<Rightarrow> error + int" where
  "py_int (Finite x) = Inr (if 0 \<le> x then \<lfloor>x\<rfloor> else \<lceil>x\<rceil>)"
| "py_int NaN = Inl ValueError"
| "py_int _ = Inl OverflowError"

text \<open>
  \<^verbatim>\<open>a / b\<close> for two Python ints: the correctly rounded quotient, \<^verbatim>\<open>ZeroDivisionError\<close>
  for \<^verbatim>\<open>b == 0\<close>, \<^verbatim>\<open>OverflowError\<close> when the quotient is too large for a float.
\<close>

definition truediv :: "int \<Rightarrow> int \<Rightarrow> error + pyfloat" where
  "truediv a b =
     (if b = 0 then Inl ZeroDivisionError
      else case to_double (of_int a / of_int b) of
             Finite q \<Rightarrow> Inr (Finite q)
           | _ \<Rightarrow> Inl OverflowError)"

text \<open>
  \<^verbatim>\<open>float(n)\<close> for a Python int, as in \<^verbatim>\<open>n / 1000.0\<close>: the nearest double,
  \<^verbatim>\<open>OverflowError\<close> when the int is too large.
\<close>

definition int_to_float :: "int \<Rightarrow> error + pyfloat" where
  "int_to_float n =
     (case to_double (of_int n) of
        Finite q \<Rightarrow> Inr (Finite q)
      | _ \<Rightarrow> Inl OverflowError)"

text \<open>\<^verbatim>\<open>a / b\<close> on floats: Python raises \<^verbatim>\<open>ZeroDivisionError\<close> whenever \<^verbatim>\<open>b\<close> is zero.\<close>

fun fdiv :: "pyfloat \<Rightarrow> pyfloat \<Rightarrow> error + pyfloat" where
  "fdiv a (Finite b) =
     (if b = 0 then Inl ZeroDivisionError
      else case a of
             Finite x \<Rightarrow> Inr (to_double (x / b))
           | PosInf \<Rightarrow> Inr (if 0 < b then PosInf else NegInf)
           | NegInf \<Rightarrow> Inr (if 0 < b then NegInf else PosInf)
           | NaN \<Rightarrow> Inr NaN)"
| "fdiv NaN _ = Inr NaN"
| "fdiv _ NaN = Inr NaN"
| "fdiv (Finite x) _ = Inr (Finite 0)"
| "fdiv _ _ = Inr NaN"

text \<open>
  Python's \<^verbatim>\<open>round(x)\<close> for a float (ties to even). The script never calls it; \<^verbatim>\<open>pydub\<close>
  does, in \<^verbatim>\<open>len\<close>, and it is the rounding that sections 3 and 8 of the specification
  name for the overlay offset and for the length of the track.
\<close>

fun py_round :: "pyfloat \<Rightarrow> error + int" where
  "py_round (Finite x) = Inr (round_half_even x)"
| "py_round NaN = Inl ValueError"
| "py_round _ = Inl OverflowError"


section \<open>Configuration\<close>

definition FRAME_RATE :: int where
  "FRAME_RATE = 60"

definition DURATION :: int where
  "DURATION = 5"

definition TOTAL_FRAMES :: int where
  "TOTAL_FRAMES = FRAME_RATE * DURATION"

definition collision_sound_path :: string where
  "collision_sound_path = ''sounds/collision.wav''"

definition AUDIO_OUTPUT :: string where
  "AUDIO_OUTPUT = ''audio.wav''"


section \<open>Audio segments and files\<close>

text \<open>
  Modelled from the spec: \<^verbatim>\<open>pydub\<close> (\<^verbatim>\<open>AudioSegment.silent\<close>, \<^verbatim>\<open>len\<close>, \<^verbatim>\<open>overlay\<close>,
  \<^verbatim>\<open>from_wav\<close>, \<^verbatim>\<open>export\<close>) is a library outside the repository. An audio segment is
  its sequence of samples at the resolution of the interface, one per millisecond, so
  that \<^verbatim>\<open>len(audio)\<close> is the length of the list. Samples are 16-bit, as those of the
  silence and of the generated tone are. The file system holds WAV files only, each as
  the segment that \<^verbatim>\<open>from_wav\<close> reads from it; a file that does not decode is not
  represented.
\<close>

type_synonym audio = "int list"

type_synonym files = "string \<rightharpoonup> audio"

text \<open>Modelled from the spec: silence of \<open>d\<close> milliseconds.\<close>

definition silent :: "int \<Rightarrow> audio" where
  "silent duration = replicate (nat duration) 0"

text \<open>
  A Python number: \<^verbatim>\<open>total_duration\<close> is the int \<^verbatim>\<open>DURATION\<close> in the script, and may be a
  float for another caller of \<^verbatim>\<open>generate_audio_track\<close>. \<open>ms_of_seconds\<close> is
  \<^verbatim>\<open>total_duration * 1000\<close>.
\<close>

datatype pynum = PyInt int | PyFloat pyfloat

fun ms_of_seconds :: "pynum \<Rightarrow> pynum" where
  "ms_of_seconds (PyInt d) = PyInt (d * 1000)"
| "ms_of_seconds (PyFloat d) = PyFloat (fmul d (Finite 1000))"

text \<open>\<^verbatim>\<open>duration / 1000.0\<close> for a Python number.\<close>

fun num_div_float :: "pynum \<Rightarrow> pyfloat \<Rightarrow> error + pyfloat" where
  "num_div_float (PyInt d) b =
     (case int_to_float d of Inl e \<Rightarrow> Inl e | Inr a \<Rightarrow> fdiv a b)"
| "num_div_float (PyFloat a) b = fdiv a b"

text \<open>
  Modelled from the spec: the length in milliseconds of \<^verbatim>\<open>AudioSegment.silent(duration)\<close>.
  The specification gives it as \<open>round (duration)\<close>; \<^verbatim>\<open>pydub\<close> allocates
  \<^verbatim>\<open>int(frame_rate * (duration / 1000.0))\<close> frames at its default frame rate of 11025 Hz
  (none when that number is negative), and \<^verbatim>\<open>len\<close> is
  \<^verbatim>\<open>round(1000 * (frame_count / frame_rate))\<close>. The two agree for a whole number of
  milliseconds, and this is the arithmetic of \<^verbatim>\<open>pydub\<close>.
\<close>

definition silent_length :: "pynum \<Rightarrow> error + nat" where
  "silent_length duration =
     (case num_div_float duration (Finite 1000) of
        Inl e \<Rightarrow> Inl e
      | Inr seconds \<Rightarrow>
     (case py_int (fmul (Finite 11025) seconds) of
        Inl e \<Rightarrow> Inl e
      | Inr frames \<Rightarrow>
     (case int_to_float (max 0 frames) of
        Inl e \<Rightarrow> Inl e
      | Inr frame_count \<Rightarrow>
     (case fdiv frame_count (Finite 11025) of
        Inl e \<Rightarrow> Inl e
      | Inr r \<Rightarrow>
     (case py_round (fmul (Finite 1000) r) of
        Inl e \<Rightarrow> Inl e
      | Inr ms \<Rightarrow> Inr (nat ms))))))"

text \<open>\<^verbatim>\<open>AudioSegment.silent(duration=d)\<close> for a Python number \<open>d\<close>.\<close>

definition silent_segment :: "pynum \<Rightarrow> error + audio" where
  "silent_segment duration =
     (case silent_length duration of
        Inl e \<Rightarrow> Inl e
      | Inr n \<Rightarrow> Inr (silent (int n)))"

text \<open>
  The sum of two samples as \<^verbatim>\<open>pydub\<close> forms it (with \<^verbatim>\<open>audioop.add\<close>): clamped to the range
  of a 16-bit sample. The specification leaves open what happens to a sum outside the
  range.
\<close>

definition clamp_sample :: "int \<Rightarrow> int" where
  "clamp_sample v = max (- 32768) (min 32767 v)"

text \<open>
  Modelled from the spec: \<^verbatim>\<open>seg.overlay(clip, position=p)\<close> adds the samples of the clip
  to those of the segment from offset \<open>p\<close> on, each sum clamped, cut off at the end of the
  segment; the result is as long as the segment. The specification speaks of offsets
  \<open>p \<ge> 0\<close> only, and so do the claims. \<^verbatim>\<open>pydub\<close> counts a negative position from the end of
  the segment; below minus the length of the segment it raises, which this function,
  overlaying from the start, does not show.
\<close>

definition overlay :: "audio \<Rightarrow> audio \<Rightarrow> int \<Rightarrow> audio" where
  "overlay seg clip position =
     (let p = (if position < 0 then nat (int (length seg) + position) else nat position)
      in take p seg @ map2 (\<lambda>a b. clamp_sample (a + b)) (drop p seg) clip @
         drop (p + length clip) seg)"


section \<open>The collision sound (lines 31 to 39)\<close>

text \<open>
  \<^verbatim>\<open>generate_collision_sound\<close> writes a 440 Hz tone of 100 ms with a fade-out to the given
  path. The samples of the tone are computed by \<^verbatim>\<open>pydub\<close> and are a parameter here.
\<close>

definition generate_collision_sound :: "audio \<Rightarrow> files \<Rightarrow> string \<Rightarrow> files" where
  "generate_collision_sound tone fs output_path = fs(output_path \<mapsto> tone)"

text \<open>
  The script generates the sound only if no file exists at \<open>collision_sound_path\<close>. The
  second component of the result tells whether \<^verbatim>\<open>generate_collision_sound\<close> was called.
\<close>

definition acquire_collision_sound :: "audio \<Rightarrow> files \<Rightarrow> files \<times> bool" where
  "acquire_collision_sound tone fs =
     (if fs collision_sound_path = None
      then (generate_collision_sound tone fs collision_sound_path, True)
      else (fs, False))"


section \<open>The simulation loop (lines 60 to 107)\<close>

text \<open>
  The state of the script: the contents of the \<^verbatim>\<open>pymunk\<close> space (bodies, shapes and
  velocities, of an abstract type), the attribute \<^verbatim>\<open>space.current_time\<close>, the global list
  \<^verbatim>\<open>collision_times\<close>, and the frames drawn so far. \<^verbatim>\<open>draw_frame(space, filename)\<close> is
  recorded as the frame number with the clock and the contents of the space it was given.
\<close>

record 's world =
  engine :: 's
  current_time :: pyfloat
  collision_times :: "pyfloat list"
  frames :: "(nat \<times> pyfloat \<times> 's) list"

definition collision_handler :: "'s world \<Rightarrow> 's world" where
  "collision_handler w = w\<lparr>collision_times := collision_times w @ [current_time w]\<rparr>"

definition draw_frame :: "nat \<Rightarrow> 's world \<Rightarrow> 's world" where
  "draw_frame frame w = w\<lparr>frames := frames w @ [(frame, current_time w, engine w)]\<rparr>"

text \<open>
  \<^verbatim>\<open>space.step(dt)\<close> belongs to \<^verbatim>\<open>pymunk\<close>. Its outcome is the new contents of the space
  and the number of times it called the \<^verbatim>\<open>post_solve\<close> handler during the step.
  \<open>advance_frame\<close> is the body of the loop for a given outcome of the step: the handler
  calls, then \<^verbatim>\<open>space.current_time += dt\<close>, then \<^verbatim>\<open>draw_frame\<close>.
\<close>

definition advance_frame :: "'s world \<Rightarrow> pyfloat \<Rightarrow> 's \<times> nat \<Rightarrow> nat \<Rightarrow> 's world" where
  "advance_frame w dt outcome frame =
     (let w1 = (collision_handler ^^ snd outcome) w;
          w2 = w1\<lparr>engine := fst outcome\<rparr>;
          w3 = w2\<lparr>current_time := fadd (current_time w2) dt\<rparr>
      in draw_frame frame w3)"

text \<open>The loop with a deterministic engine \<open>step\<close>. \<^verbatim>\<open>dt = 1 / FRAME_RATE\<close> is computed in
  every iteration.\<close>

fun sim_loop :: "('s \<Rightarrow> pyfloat \<Rightarrow> 's \<times> nat) \<Rightarrow> int \<Rightarrow> nat list \<Rightarrow> 's world \<Rightarrow> error + 's world" where
  "sim_loop step frame_rate [] w = Inr w"
| "sim_loop step frame_rate (frame # rest) w =
     (case truediv 1 frame_rate of
        Inl e \<Rightarrow> Inl e
      | Inr dt \<Rightarrow> sim_loop step frame_rate rest (advance_frame w dt (step (engine w) dt) frame))"

text \<open>\<^verbatim>\<open>range(n)\<close>.\<close>

definition py_range :: "int \<Rightarrow> nat list" where
  "py_range n = [0..<nat n]"

definition initial_world :: "'s \<Rightarrow> 's world" where
  "initial_world e = \<lparr>engine = e, current_time = Finite 0, collision_times = [], frames = []\<rparr>"

definition simulate :: "('s \<Rightarrow> pyfloat \<Rightarrow> 's \<times> nat) \<Rightarrow> 's \<Rightarrow> int \<Rightarrow> int \<Rightarrow> error + 's world" where
  "simulate step e frame_rate duration =
     sim_loop step frame_rate (py_range (frame_rate * duration)) (initial_world e)"

text \<open>
  The loop reads nothing but its arguments: the engine, the frame rate, the frames and
  the state. It consults no clock and no random source, so that in this model two runs
  can differ only where the engine does.
\<close>


section \<open>The audio track (lines 112 to 143)\<close>

text \<open>The body of the loop over \<^verbatim>\<open>collision_times\<close>, lines 130 to 132.\<close>

definition overlay_collision :: "audio \<Rightarrow> audio \<Rightarrow> pyfloat \<Rightarrow> error + audio" where
  "overlay_collision collision_sound audio collision_time =
     (case py_int (fmul collision_time (Finite 1000)) of
        Inl e \<Rightarrow> Inl e
      | Inr collision_ms \<Rightarrow>
          Inr (if collision_ms < int (length audio)
               then overlay audio collision_sound collision_ms
               else audio))"

fun overlay_collisions :: "audio \<Rightarrow> audio \<Rightarrow> pyfloat list \<Rightarrow> error + audio" where
  "overlay_collisions collision_sound audio [] = Inr audio"
| "overlay_collisions collision_sound audio (t # ts) =
     (case overlay_collision collision_sound audio t of
        Inl e \<Rightarrow> Inl e
      | Inr audio' \<Rightarrow> overlay_collisions collision_sound audio' ts)"

text \<open>
  \<^verbatim>\<open>generate_audio_track\<close>; its parameter \<^verbatim>\<open>frame_rate\<close>, which the function never reads,
  is left out. \<^verbatim>\<open>total_duration\<close> is any Python number. A sound file that is missing
  raises; one that is there is read as the segment it holds.
\<close>

definition generate_audio_track :: "files \<Rightarrow> pyfloat list \<Rightarrow> string \<Rightarrow> pynum \<Rightarrow> string \<Rightarrow> error + files" where
  "generate_audio_track fs event_times sound_path total_duration output_path =
     (case silent_segment (ms_of_seconds total_duration) of
        Inl e \<Rightarrow> Inl e
      | Inr audio \<Rightarrow>
     (case fs sound_path of
        None \<Rightarrow> Inl FileNotFoundError
      | Some collision_sound \<Rightarrow>
     (case overlay_collisions collision_sound audio event_times of
        Inl e \<Rightarrow> Inl e
      | Inr audio' \<Rightarrow> Inr (fs(output_path \<mapsto> audio')))))"

text \<open>The script up to \<^verbatim>\<open>"Audio track generated."\<close>; the calls of \<^verbatim>\<open>ffmpeg\<close> follow.\<close>

definition script ::
  "audio \<Rightarrow> ('s \<Rightarrow> pyfloat \<Rightarrow> 's \<times> nat) \<Rightarrow> 's \<Rightarrow> files \<Rightarrow> error + ('s world \<times> files)" where
  "script tone step e fs =
     (let fs1 = fst (acquire_collision_sound tone fs)
      in case simulate step e FRAME_RATE DURATION of
           Inl err \<Rightarrow> Inl err
         | Inr w \<Rightarrow>
             (case generate_audio_track fs1 (collision_times w) collision_sound_path
                     (PyInt DURATION) AUDIO_OUTPUT of
                Inl err \<Rightarrow> Inl err
              | Inr fs2 \<Rightarrow> Inr (w, fs2)))"


section \<open>Sample engines\<close>

text \<open>
  An engine for concrete runs: its state counts the calls of \<^verbatim>\<open>space.step\<close>, and the
  handler is called once, during the seventh call.
\<close>

definition demo_engine :: "nat \<Rightarrow> pyfloat \<Rightarrow> nat \<times> nat" where
  "demo_engine s dt = (s + 1, if s = 6 then 1 else 0)"

text \<open>
  A second one: the handler is called twice during the second call (two contacts in one
  step) and once during the fourth.
\<close>

definition bounce_engine :: "nat \<Rightarrow> pyfloat \<Rightarrow> nat \<times> nat" where
  "bounce_engine s dt = (s + 1, if s = 1 then 2 else if s = 3 then 1 else 0)"


section \<open>The clock as an accumulated sum\<close>

text \<open>
  The value of \<^verbatim>\<open>space.current_time\<close> after \<open>n\<close> iterations: \<open>dt\<close> added \<open>n\<close> times to
  \<open>0.0\<close>, each addition rounded.
\<close>

definition clock_after :: "pyfloat \<Rightarrow> nat \<Rightarrow> pyfloat" where
  "clock_after dt n = ((\<lambda>c. fadd c dt) ^^ n) (Finite 0)"

text \<open>
  The reals that are doubles, and the floats a clock can hold when it counts upwards:
  a double or \<open>+\<infinity>\<close>.
\<close>

definition is_double :: "real \<Rightarrow> bool" where
  "is_double x \<longleftrightarrow> round_to_double x = x \<and> \<bar>x\<bar> < 2 ^ 1024"

fun regular :: "pyfloat \<Rightarrow> bool" where
  "regular (Finite x) = is_double x"
| "regular PosInf = True"
| "regular _ = False"

text \<open>
  A check of the first \<open>n\<close> values of a clock that starts at \<open>c\<close>, numbered from \<open>k\<close>, in one
  pass; and the bounds that are checked of the clock of the script: the \<open>k\<close>-th value is
  within a relative \<open>10\<^sup>-\<^sup>9\<close> of \<open>k * dt\<close>, and lies between 0 and \<open>b\<close> before the last
  frame.
\<close>

fun clocks_ok :: "(nat \<Rightarrow> pyfloat \<Rightarrow> bool) \<Rightarrow> pyfloat \<Rightarrow> nat \<Rightarrow> nat \<Rightarrow> pyfloat \<Rightarrow> bool" where
  "clocks_ok P dt 0 k c = True"
| "clocks_ok P dt (Suc n) k c = (P k c \<and> clocks_ok P dt n (k + 1) (fadd c dt))"

definition clock_bound :: "real \<Rightarrow> real \<Rightarrow> nat \<Rightarrow> pyfloat \<Rightarrow> bool" where
  "clock_bound dt b k c =
     (case c of
        Finite x \<Rightarrow> \<bar>x - real k * dt\<bar> \<le> \<bar>real k * dt\<bar> / 10 ^ 9 \<and> (k < 300 \<longrightarrow> 0 \<le> x \<and> x \<le> b)
      | _ \<Rightarrow> False)"

section \<open>Properties of the rounding\<close>

lemma two_powi_less_iff: "(2::real) powi a < 2 powi b \<longleftrightarrow> a < b"
proof
  assume "(2::real) powi a < 2 powi b"
  show "a < b"
  proof (rule ccontr)
    assume "\<not> a < b"
    then have "b \<le> a" by simp
    then have "(2::real) powi b \<le> 2 powi a" by (rule power_int_increasing) simp
    with \<open>(2::real) powi a < 2 powi b\<close> show False by simp
  qed
next
  assume "a < b"
  then show "(2::real) powi a < 2 powi b" by (rule power_int_strict_increasing) simp
qed

lemma two_powi_le_iff: "(2::real) powi a \<le> 2 powi b \<longleftrightarrow> a \<le> b"
  using two_powi_less_iff [of b a] by (auto simp: not_less [symmetric])

lemma two_powi_pos: "0 < (2::real) powi a"
  by (simp add: zero_less_power_int)

lemma log2f_bounds: "0 < n \<Longrightarrow> 2 ^ log2f n \<le> n \<and> n < 2 ^ Suc (log2f n)"
proof (induction n rule: log2f.induct)
  case (1 n)
  show ?case
  proof (cases "n < 2")
    case True
    with "1.prems" have "n = 1" by simp
    then show ?thesis by (simp add: log2f.simps)
  next
    case False
    then have pos: "0 < n div 2" by simp
    from "1.IH" [OF False pos]
    have lo: "2 ^ log2f (n div 2) \<le> n div 2" and hi: "n div 2 < 2 ^ Suc (log2f (n div 2))"
      by simp_all
    have eq: "log2f n = Suc (log2f (n div 2))"
      using False by (subst log2f.simps) simp
    from lo have "2 * 2 ^ log2f (n div 2) \<le> n" by linarith
    moreover from hi have "n < 2 * 2 ^ Suc (log2f (n div 2))" by linarith
    ultimately show ?thesis by (simp add: eq)
  qed
qed

lemma float_exponent_bounds:
  assumes "0 < x"
  shows "2 powi float_exponent x \<le> x" and "x < 2 powi (float_exponent x + 1)"
proof -
  have "2 powi float_exponent x \<le> x \<and> x < 2 powi (float_exponent x + 1)"
  proof (cases "1 \<le> x")
    case True
    define n where "n = nat \<lfloor>x\<rfloor>"
    have npos: "0 < n" using True by (simp add: n_def)
    have nle: "real n \<le> x" using True by (simp add: n_def)
    have xlt: "x < real n + 1" using True by (simp add: n_def)
    from log2f_bounds [OF npos]
    have lo: "2 ^ log2f n \<le> n" and hi: "n < 2 ^ Suc (log2f n)" by simp_all
    have e: "float_exponent x = int (log2f n)"
      using True by (simp add: float_exponent_def n_def)
    from lo have "(2::real) ^ log2f n \<le> real n"
      by (metis of_nat_le_iff of_nat_numeral of_nat_power)
    moreover have "2 powi float_exponent x = (2::real) ^ log2f n" by (simp add: e)
    ultimately have A: "2 powi float_exponent x \<le> x" using nle by linarith
    from hi have "Suc n \<le> 2 ^ Suc (log2f n)" by simp
    then have "real (Suc n) \<le> (2::real) ^ Suc (log2f n)"
      by (metis of_nat_le_iff of_nat_numeral of_nat_power)
    moreover have "2 powi (float_exponent x + 1) = (2::real) ^ Suc (log2f n)"
      by (simp add: e power_int_add)
    ultimately have B: "x < 2 powi (float_exponent x + 1)"
      using xlt by simp
    from A B show ?thesis ..
  next
    case False
    then have x1: "x < 1" by simp
    define n where "n = nat \<lceil>1 / x\<rceil>"
    define k where "k = Suc (log2f (n - 1))"
    have inv: "1 < 1 / x" using assms x1 by simp
    then have "2 \<le> \<lceil>1 / x\<rceil>" by linarith
    then have n2: "2 \<le> n" unfolding n_def by linarith
    have rn: "real n = of_int \<lceil>1 / x\<rceil>"
      using \<open>2 \<le> \<lceil>1 / x\<rceil>\<close> by (simp add: n_def)
    have le_n: "1 / x \<le> real n"
      unfolding rn by linarith
    have gt_n: "real n - 1 < 1 / x"
      unfolding rn by linarith
    from n2 have "0 < n - 1" by simp
    from log2f_bounds [OF this]
    have lo: "2 ^ log2f (n - 1) \<le> n - 1" and hi: "n - 1 < 2 ^ k" by (simp_all add: k_def)
    have e: "float_exponent x = - int k"
      using False by (simp add: float_exponent_def n_def k_def)
    from hi have "n \<le> 2 ^ k" using n2 by linarith
    then have "real n \<le> (2::real) ^ k"
      by (metis of_nat_le_iff of_nat_numeral of_nat_power)
    with le_n have "1 / x \<le> 2 ^ k" by linarith
    then have "1 / 2 ^ k \<le> x" using assms
      by (simp add: field_simps)
    then have A: "2 powi float_exponent x \<le> x"
      by (simp add: e power_int_minus_divide)
    from lo have "real (2 ^ log2f (n - 1)) \<le> real (n - 1)"
      using of_nat_le_iff by blast
    then have "(2::real) ^ log2f (n - 1) \<le> real n - 1" using n2 by (simp add: of_nat_diff)
    with gt_n have "2 ^ log2f (n - 1) < 1 / x" by linarith
    then have "x < 1 / 2 ^ log2f (n - 1)" using assms
      by (simp add: field_simps)
    moreover have "float_exponent x + 1 = - int (log2f (n - 1))" by (simp add: e k_def)
    ultimately have B: "x < 2 powi (float_exponent x + 1)"
      by (simp add: power_int_minus_divide)
    from A B show ?thesis ..
  qed
  then show "2 powi float_exponent x \<le> x" and "x < 2 powi (float_exponent x + 1)" by simp_all
qed

lemma float_exponent_unique:
  assumes "2 powi e \<le> x" and "x < 2 powi (e + 1)"
  shows "float_exponent x = e"
proof -
  have pos: "0 < x" using assms(1) two_powi_pos [of e] by linarith
  note b = float_exponent_bounds [OF pos]
  have "2 powi e < (2::real) powi (float_exponent x + 1)" using assms(1) b(2) by linarith
  then have 1: "e < float_exponent x + 1" by (simp only: two_powi_less_iff)
  have "2 powi float_exponent x < (2::real) powi (e + 1)" using assms(2) b(1) by linarith
  then have 2: "float_exponent x < e + 1" by (simp only: two_powi_less_iff)
  from 1 2 show ?thesis by simp
qed

lemma two_powi_add: "(2::real) powi (a + b) = 2 powi a * 2 powi b"
  by (simp add: power_int_add)

lemma round_half_even_cases:
  "round_half_even y = \<lfloor>y\<rfloor> \<or> round_half_even y = \<lfloor>y\<rfloor> + 1"
  by (simp add: round_half_even_def Let_def)

lemma round_half_even_of_int [simp]: "round_half_even (of_int n) = n"
  by (simp add: round_half_even_def Let_def)

lemma round_half_even_mono:
  assumes "a \<le> b"
  shows "round_half_even a \<le> round_half_even b"
proof (cases "\<lfloor>a\<rfloor> = \<lfloor>b\<rfloor>")
  case True
  then show ?thesis using assms
    by (auto simp: round_half_even_def Let_def)
next
  case False
  with assms have "\<lfloor>a\<rfloor> < \<lfloor>b\<rfloor>" by (simp add: floor_mono order_neq_le_trans)
  moreover have "round_half_even a \<le> \<lfloor>a\<rfloor> + 1"
    using round_half_even_cases [of a] by linarith
  moreover have "\<lfloor>b\<rfloor> \<le> round_half_even b"
    using round_half_even_cases [of b] by linarith
  ultimately show ?thesis by linarith
qed

lemma round_half_even_ge: "of_int n \<le> y \<Longrightarrow> n \<le> round_half_even y"
  using round_half_even_mono [of "of_int n" y] by simp

lemma round_half_even_le: "y \<le> of_int n \<Longrightarrow> round_half_even y \<le> n"
  using round_half_even_mono [of y "of_int n"] by simp

lemma round_half_even_error: "\<bar>of_int (round_half_even y) - y\<bar> \<le> 1 / 2"
  by (simp add: round_half_even_def Let_def)

lemma ulp_of_pos: "0 < ulp_of x"
  by (simp add: ulp_of_def two_powi_pos)

lemma binade_mono:
  assumes "0 < x" "x \<le> y"
  shows "binade x \<le> binade y"
proof -
  have "float_exponent x \<le> float_exponent y"
  proof (rule ccontr)
    assume "\<not> float_exponent x \<le> float_exponent y"
    then have "float_exponent y + 1 \<le> float_exponent x" by simp
    then have "(2::real) powi (float_exponent y + 1) \<le> 2 powi float_exponent x"
      by (simp only: two_powi_le_iff)
    moreover have "y < 2 powi (float_exponent y + 1)"
      using assms by (intro float_exponent_bounds) simp
    moreover have "2 powi float_exponent x \<le> x"
      using assms by (intro float_exponent_bounds)
    ultimately show False using assms by linarith
  qed
  then show ?thesis using assms by (simp add: binade_def)
qed

text \<open>The rounding of a positive number stays within its binade (closed above).\<close>

lemma round_pos_upper:
  assumes "0 < x"
  shows "of_int (round_half_even (x / ulp_of x)) * ulp_of x \<le> 2 powi (binade x + 1)"
proof -
  have "x < 2 powi (float_exponent x + 1)" using assms by (rule float_exponent_bounds)
  also have "\<dots> \<le> 2 powi (binade x + 1)"
    using assms by (simp only: two_powi_le_iff) (simp add: binade_def)
  finally have "x < 2 powi (binade x + 1)" .
  moreover have "(2::real) powi (binade x + 1) = 2 ^ 53 * ulp_of x"
  proof -
    have "(2::real) powi (53 + (binade x - 52)) = 2 powi 53 * 2 powi (binade x - 52)"
      by (rule two_powi_add)
    moreover have "53 + (binade x - 52) = binade x + 1" by simp
    ultimately show ?thesis unfolding ulp_of_def by simp
  qed
  ultimately have "x / ulp_of x \<le> 2 ^ 53"
    using ulp_of_pos [of x] by (simp add: field_simps)
  then have "x / ulp_of x \<le> of_int (2 ^ 53)" by simp
  then have "round_half_even (x / ulp_of x) \<le> 2 ^ 53" by (rule round_half_even_le)
  then have "real_of_int (round_half_even (x / ulp_of x)) \<le> 2 ^ 53"
    by (metis of_int_le_iff of_int_numeral of_int_power)
  then have "of_int (round_half_even (x / ulp_of x)) * ulp_of x \<le> 2 ^ 53 * ulp_of x"
    using ulp_of_pos [of x] by (simp only: mult_le_cancel_right_pos)
  then show ?thesis using \<open>(2::real) powi (binade x + 1) = 2 ^ 53 * ulp_of x\<close> by simp
qed

lemma round_pos_lower:
  assumes "0 < x" and "- 1022 \<le> float_exponent x"
  shows "2 powi binade x \<le> of_int (round_half_even (x / ulp_of x)) * ulp_of x"
proof -
  have b: "binade x = float_exponent x" using assms by (simp add: binade_def)
  have "2 powi binade x \<le> x" unfolding b using assms(1) by (rule float_exponent_bounds)
  moreover have e: "(2::real) powi binade x = 2 ^ 52 * ulp_of x"
  proof -
    have "(2::real) powi (52 + (binade x - 52)) = 2 powi 52 * 2 powi (binade x - 52)"
      by (rule two_powi_add)
    moreover have "52 + (binade x - 52) = binade x" by simp
    ultimately show ?thesis unfolding ulp_of_def by simp
  qed
  ultimately have "2 ^ 52 \<le> x / ulp_of x"
    using ulp_of_pos [of x] by (simp add: field_simps)
  then have "of_int (2 ^ 52) \<le> x / ulp_of x" by simp
  then have "2 ^ 52 \<le> round_half_even (x / ulp_of x)" by (rule round_half_even_ge)
  then have "2 ^ 52 \<le> real_of_int (round_half_even (x / ulp_of x))"
    by (metis of_int_le_iff of_int_numeral of_int_power)
  then have "2 ^ 52 * ulp_of x \<le> of_int (round_half_even (x / ulp_of x)) * ulp_of x"
    using ulp_of_pos [of x] by (simp only: mult_le_cancel_right_pos)
  then show ?thesis using e by simp
qed

lemma round_to_double_pos:
  "0 < x \<Longrightarrow> round_to_double x = of_int (round_half_even (x / ulp_of x)) * ulp_of x"
  by (simp add: round_to_double_def)

lemma round_to_double_nonneg: "0 \<le> x \<Longrightarrow> 0 \<le> round_to_double x"
proof -
  assume "0 \<le> x"
  show ?thesis
  proof (cases "x = 0")
    case True then show ?thesis by (simp add: round_to_double_def)
  next
    case False
    with \<open>0 \<le> x\<close> have pos: "0 < x" by simp
    then have "0 \<le> x / ulp_of x" using ulp_of_pos [of x] by simp
    then have "of_int 0 \<le> x / ulp_of x" by simp
    then have "0 \<le> round_half_even (x / ulp_of x)" by (rule round_half_even_ge)
    then show ?thesis using pos ulp_of_pos [of x] by (simp add: round_to_double_pos)
  qed
qed

lemma ulp_of_minus [simp]: "ulp_of (- x) = ulp_of x"
  by (simp add: ulp_of_def binade_def)

lemma round_to_double_minus: "round_to_double (- x) = - round_to_double x"
  by (simp add: round_to_double_def sgn_minus)

lemma round_to_double_mono_pos:
  assumes "0 < x" "x \<le> y"
  shows "round_to_double x \<le> round_to_double y"
proof -
  have ypos: "0 < y" using assms by simp
  have le: "binade x \<le> binade y"
    using binade_mono [OF assms] .
  show ?thesis
  proof (cases "binade x = binade y")
    case True
    then have u: "ulp_of x = ulp_of y" by (simp add: ulp_of_def)
    have "x / ulp_of y \<le> y / ulp_of y"
      using assms ulp_of_pos [of y] by (simp add: divide_right_mono)
    then have "round_half_even (x / ulp_of y) \<le> round_half_even (y / ulp_of y)"
      by (rule round_half_even_mono)
    then have "real_of_int (round_half_even (x / ulp_of y)) * ulp_of y
               \<le> real_of_int (round_half_even (y / ulp_of y)) * ulp_of y"
      using ulp_of_pos [of y] by (simp only: mult_le_cancel_right_pos of_int_le_iff)
    then show ?thesis using assms ypos by (simp add: round_to_double_pos u)
  next
    case False
    with le have lt: "binade x + 1 \<le> binade y" by simp
    then have "- 1022 < binade y" by (simp add: binade_def)
    then have ny: "- 1022 \<le> float_exponent y" using ypos by (simp add: binade_def)
    have "round_to_double x \<le> 2 powi (binade x + 1)"
      using round_pos_upper [OF assms(1)] assms(1) by (simp add: round_to_double_pos)
    also have "\<dots> \<le> 2 powi binade y" using lt by (simp only: two_powi_le_iff)
    also have "\<dots> \<le> round_to_double y"
      using round_pos_lower [OF ypos ny] ypos by (simp add: round_to_double_pos)
    finally show ?thesis .
  qed
qed

lemma round_to_double_mono:
  assumes "x \<le> y"
  shows "round_to_double x \<le> round_to_double y"
proof -
  consider "0 < x" | "x \<le> 0" "0 \<le> y" | "y < 0" by linarith
  then show ?thesis
  proof cases
    case 1
    then show ?thesis using assms by (rule round_to_double_mono_pos)
  next
    case 2
    have "round_to_double (- x) \<ge> 0" using 2 by (intro round_to_double_nonneg) simp
    then have "round_to_double x \<le> 0" by (simp add: round_to_double_minus)
    also have "0 \<le> round_to_double y" using 2 by (intro round_to_double_nonneg)
    finally show ?thesis .
  next
    case 3
    then have "0 < - y" "- y \<le> - x" using assms by simp_all
    then have "round_to_double (- y) \<le> round_to_double (- x)" by (rule round_to_double_mono_pos)
    then show ?thesis by (simp add: round_to_double_minus)
  qed
qed

lemma round_to_double_of_int_ulp:
  assumes "0 < y" and "y / ulp_of y = of_int k"
  shows "round_to_double y = y"
proof -
  have "round_to_double y = of_int (round_half_even (of_int k)) * ulp_of y"
    using assms by (simp add: round_to_double_pos)
  also have "\<dots> = (y / ulp_of y) * ulp_of y" by (simp add: assms(2))
  also have "\<dots> = y" using ulp_of_pos [of y] by simp
  finally show ?thesis .
qed

lemma round_to_double_idem_pos:
  assumes "0 < x"
  shows "round_to_double (round_to_double x) = round_to_double x"
proof -
  define m where "m = round_half_even (x / ulp_of x)"
  define y where "y = of_int m * ulp_of x"
  have y: "round_to_double x = y" using assms by (simp add: round_to_double_pos m_def y_def)
  have ynn: "0 \<le> y" using round_to_double_nonneg [of x] assms by (simp add: y)
  have up: "y \<le> 2 powi (binade x + 1)"
    using round_pos_upper [OF assms] by (simp add: y_def m_def)
  have bx: "- 1022 \<le> binade x" by (simp add: binade_def)
  have "round_to_double y = y"
  proof (cases "y = 0")
    case True
    then show ?thesis by (simp add: round_to_double_def)
  next
    case False
    with ynn have ypos: "0 < y" by simp
    show ?thesis
    proof (cases "y = 2 powi (binade x + 1)")
      case True
      have "float_exponent y = binade x + 1"
      proof (rule float_exponent_unique)
        show "2 powi (binade x + 1) \<le> y" using True by simp
        have "(2::real) powi (binade x + 1) < 2 powi (binade x + 1 + 1)"
          by (simp add: two_powi_less_iff)
        then show "y < 2 powi (binade x + 1 + 1)" using True by simp
      qed
      then have "binade y = binade x + 1" using bx ypos by (simp add: binade_def)
      then have u: "ulp_of y = 2 powi (binade x + 1 - 52)" by (simp add: ulp_of_def)
      have "(2::real) powi (52 + (binade x + 1 - 52)) = 2 powi 52 * 2 powi (binade x + 1 - 52)"
        by (rule two_powi_add)
      moreover have "52 + (binade x + 1 - 52) = binade x + 1" by simp
      ultimately have p: "(2::real) powi (binade x + 1) = 2 powi 52 * 2 powi (binade x + 1 - 52)"
        by (simp only:)
      have "y = 2 powi (binade x + 1)" by (rule True)
      also note p
      also have "2 powi 52 * 2 powi (binade x + 1 - 52) = 2 powi 52 * ulp_of y"
        by (simp only: u)
      finally have "y = 2 powi 52 * ulp_of y" .
      then have "y / ulp_of y = 2 powi 52" using ulp_of_pos [of y] by (simp add: field_simps)
      then have "y / ulp_of y = of_int (2 ^ 52)" by simp
      with ypos show ?thesis by (rule round_to_double_of_int_ulp)
    next
      case False
      with up have lt: "y < 2 powi (binade x + 1)" by simp
      have "2 powi float_exponent y \<le> y" using ypos by (rule float_exponent_bounds)
      with lt have "(2::real) powi float_exponent y < 2 powi (binade x + 1)" by linarith
      then have "float_exponent y < binade x + 1" by (simp only: two_powi_less_iff)
      then have le: "binade y \<le> binade x" using bx ypos by (simp add: binade_def)
      define d where "d = nat (binade x - binade y)"
      have "binade x - 52 = int d + (binade y - 52)" using le by (simp add: d_def)
      then have "(2::real) powi (binade x - 52) = 2 powi (int d) * 2 powi (binade y - 52)"
        by (simp only: two_powi_add)
      then have "ulp_of x = 2 ^ d * ulp_of y" by (simp add: ulp_of_def)
      then have "y = of_int m * 2 ^ d * ulp_of y" by (simp add: y_def)
      then have "y / ulp_of y = of_int m * 2 ^ d" using ulp_of_pos [of y]
        by (simp add: field_simps)
      then have "y / ulp_of y = of_int (m * 2 ^ d)" by simp
      with ypos show ?thesis by (rule round_to_double_of_int_ulp)
    qed
  qed
  then show ?thesis by (simp add: y)
qed

lemma round_to_double_idem: "round_to_double (round_to_double x) = round_to_double x"
proof -
  consider "0 < x" | "x = 0" | "x < 0" by linarith
  then show ?thesis
  proof cases
    case 1
    then show ?thesis by (rule round_to_double_idem_pos)
  next
    case 2
    then show ?thesis by (simp add: round_to_double_def)
  next
    case 3
    then have "0 < - x" by simp
    then have "round_to_double (round_to_double (- x)) = round_to_double (- x)"
      by (rule round_to_double_idem_pos)
    then show ?thesis by (simp add: round_to_double_minus)
  qed
qed

lemma round_to_double_error:
  "\<bar>round_to_double x - x\<bar> \<le> ulp_of x / 2"
proof (cases "x = 0")
  case True
  then show ?thesis using ulp_of_pos [of 0] by (simp add: round_to_double_def)
next
  case False
  define m where "m = round_half_even (\<bar>x\<bar> / ulp_of x)"
  have "\<bar>of_int m - \<bar>x\<bar> / ulp_of x\<bar> \<le> 1 / 2"
    unfolding m_def by (rule round_half_even_error)
  then have "\<bar>of_int m - \<bar>x\<bar> / ulp_of x\<bar> * ulp_of x \<le> 1 / 2 * ulp_of x"
    using ulp_of_pos [of x] by (simp only: mult_le_cancel_right_pos)
  moreover have "\<bar>of_int m - \<bar>x\<bar> / ulp_of x\<bar> * ulp_of x = \<bar>of_int m * ulp_of x - \<bar>x\<bar>\<bar>"
  proof -
    have "\<bar>of_int m - \<bar>x\<bar> / ulp_of x\<bar> * ulp_of x = \<bar>(of_int m - \<bar>x\<bar> / ulp_of x) * ulp_of x\<bar>"
      using ulp_of_pos [of x] by (simp add: abs_mult)
    also have "(of_int m - \<bar>x\<bar> / ulp_of x) * ulp_of x = of_int m * ulp_of x - \<bar>x\<bar>"
      using ulp_of_pos [of x] by (simp add: field_simps)
    finally show ?thesis .
  qed
  ultimately have e: "\<bar>of_int m * ulp_of x - \<bar>x\<bar>\<bar> \<le> ulp_of x / 2" by simp
  show ?thesis
  proof (cases "0 < x")
    case True
    then show ?thesis using e by (simp add: round_to_double_def m_def)
  next
    case False
    with \<open>x \<noteq> 0\<close> have "x < 0" by simp
    then have "round_to_double x = - (of_int m * ulp_of x)"
      by (simp add: round_to_double_def m_def)
    moreover have "\<bar>x\<bar> = - x" using \<open>x < 0\<close> by simp
    ultimately show ?thesis using e by linarith
  qed
qed

text \<open>Powers of two in the normal range are doubles; beyond the largest double lies infinity.\<close>

lemma round_to_double_two_powi:
  assumes "- 1022 \<le> e"
  shows "round_to_double (2 powi e) = 2 powi e"
proof -
  let ?y = "(2::real) powi e"
  have pos: "0 < ?y" by (rule two_powi_pos)
  have "float_exponent ?y = e"
    by (rule float_exponent_unique) (simp_all add: two_powi_less_iff)
  then have "binade ?y = e" using assms pos by (simp add: binade_def)
  then have u: "ulp_of ?y = 2 powi (e - 52)" by (simp add: ulp_of_def)
  have "(2::real) powi (52 + (e - 52)) = 2 powi 52 * 2 powi (e - 52)"
    by (rule two_powi_add)
  then have "?y / 2 powi (e - 52) = 2 powi 52"
    using two_powi_pos [of "e - 52"] by (simp add: field_simps)
  then have "?y / ulp_of ?y = 2 powi 52" by (simp only: u)
  then have "?y / ulp_of ?y = of_int (2 ^ 52)" by simp
  with pos show ?thesis by (rule round_to_double_of_int_ulp)
qed

lemma to_double_overflow:
  assumes "2 ^ 1024 \<le> x"
  shows "to_double x = PosInf"
proof -
  have "round_to_double (2 powi 1024) = 2 powi 1024"
    by (rule round_to_double_two_powi) simp
  then have "round_to_double (2 ^ 1024) = 2 ^ 1024" by simp
  moreover have "round_to_double (2 ^ 1024) \<le> round_to_double x"
    using assms by (rule round_to_double_mono)
  ultimately have "2 ^ 1024 \<le> round_to_double x" by simp
  then show ?thesis by (simp add: to_double_def Let_def)
qed

lemma to_double_Finite:
  "to_double x = Finite y \<Longrightarrow> y = round_to_double x \<and> \<bar>y\<bar> < 2 ^ 1024"
  by (auto simp: to_double_def Let_def split: if_splits)

lemma fmul_Finite:
  "fmul (Finite x) (Finite k) = Finite y \<Longrightarrow> y = round_to_double (x * k)"
  by (simp add: to_double_Finite)

text \<open>Doubles, the quotient \<open>1 / frame_rate\<close>, and adding a non-negative step.\<close>

lemma round_to_double_one: "round_to_double 1 = 1"
  using round_to_double_two_powi [of 0] by simp

lemma is_double_zero: "is_double 0"
  by (simp add: is_double_def round_to_double_def)

lemma to_double_is_double: "to_double x = Finite y \<Longrightarrow> is_double y"
  by (auto simp: is_double_def dest!: to_double_Finite simp: round_to_double_idem)

lemma truediv_one_pos:
  assumes "0 < fr"
  shows "\<exists>d. truediv 1 fr = Inr (Finite d) \<and> 0 \<le> d \<and> is_double d"
proof -
  define x :: real where "x = 1 / of_int fr"
  define y where "y = round_to_double x"
  have "1 \<le> fr" using assms by simp
  then have "1 \<le> (of_int fr :: real)" by linarith
  then have x: "0 \<le> x" "x \<le> 1" by (simp_all add: x_def)
  have y0: "0 \<le> y" unfolding y_def using x(1) by (rule round_to_double_nonneg)
  have "y \<le> round_to_double 1" unfolding y_def using x(2) by (rule round_to_double_mono)
  then have y1: "y \<le> 1" by (simp add: round_to_double_one)
  have "(1::real) < 2 ^ 1024" by simp
  with y0 y1 have small: "\<bar>y\<bar> < 2 ^ 1024" by linarith
  then have "to_double x = Finite y" by (simp add: to_double_def y_def)
  moreover from this have "is_double y" by (rule to_double_is_double)
  ultimately show ?thesis using assms y0 by (simp add: truediv_def x_def)
qed

lemma fle_refl: "regular c \<Longrightarrow> fle c c"
  by (cases c) simp_all

lemma fle_trans: "fle a b \<Longrightarrow> fle b c \<Longrightarrow> fle a c"
  by (cases a; cases b; cases c) simp_all

lemma fadd_regular:
  assumes "regular c" and "0 \<le> d"
  shows "regular (fadd c (Finite d)) \<and> fle c (fadd c (Finite d))"
proof (cases c)
  case (Finite x)
  with assms have dbl: "round_to_double x = x" and bound: "\<bar>x\<bar> < 2 ^ 1024"
    by (simp_all add: is_double_def)
  define y where "y = round_to_double (x + d)"
  have "round_to_double x \<le> y" unfolding y_def
    using assms(2) by (intro round_to_double_mono) simp
  then have xy: "x \<le> y" by (simp add: dbl)
  show ?thesis
  proof (cases "2 ^ 1024 \<le> \<bar>y\<bar>")
    case True
    with xy bound have "0 < y" by linarith
    with True have "fadd c (Finite d) = PosInf"
      by (simp add: Finite to_double_def y_def)
    then show ?thesis by (simp add: Finite)
  next
    case False
    then have e: "fadd c (Finite d) = Finite y"
      by (simp add: Finite to_double_def y_def)
    then have "to_double (x + d) = Finite y" by (simp add: Finite)
    then have "is_double y" by (rule to_double_is_double)
    then show ?thesis using xy unfolding e by (simp add: Finite)
  qed
next
  case PosInf
  then show ?thesis by simp
next
  case NegInf
  with assms show ?thesis by simp
next
  case NaN
  with assms show ?thesis by simp
qed

text \<open>An addition below 8 is off by at most half a unit in the last place, \<open>2\<^sup>-\<^sup>5\<^sup>1\<close>.\<close>

lemma float_exponent_less:
  assumes "0 < x" and "x < 2 powi k"
  shows "float_exponent x < k"
proof -
  have "2 powi float_exponent x \<le> x" using assms(1) by (rule float_exponent_bounds)
  with assms(2) have "(2::real) powi float_exponent x < 2 powi k" by linarith
  then show ?thesis by (simp only: two_powi_less_iff)
qed

lemma fadd_small_error:
  assumes "0 \<le> c" and "c < 5" and "0 < d" and "d < 1"
  shows "\<exists>c'. fadd (Finite c) (Finite d) = Finite c' \<and> \<bar>c' - c - d\<bar> \<le> 1 / 2 ^ 51"
proof -
  define x where "x = c + d"
  define y where "y = round_to_double x"
  have x: "0 < x" "x < 8" using assms by (simp_all add: x_def)
  have "float_exponent \<bar>x\<bar> < 3"
    using x by (intro float_exponent_less) simp_all
  then have "binade x - 52 \<le> - 50" by (simp add: binade_def)
  then have "ulp_of x \<le> 2 powi (- 50)"
    unfolding ulp_of_def by (simp only: two_powi_le_iff)
  then have u: "ulp_of x / 2 \<le> 1 / 2 ^ 51" by simp
  have "\<bar>y - x\<bar> \<le> ulp_of x / 2" unfolding y_def by (rule round_to_double_error)
  with u have err: "\<bar>y - x\<bar> \<le> 1 / 2 ^ 51" by linarith
  have "(1::real) / 2 ^ 51 \<le> 1" by simp
  with err x have "\<bar>y\<bar> < 9" by linarith
  moreover have "(9::real) < 2 ^ 1024"
  proof -
    have "(9::real) < 2 ^ 4" by simp
    also have "\<dots> \<le> 2 ^ 1024" by (rule power_increasing) simp_all
    finally show ?thesis .
  qed
  ultimately have "\<bar>y\<bar> < 2 ^ 1024" by linarith
  then have "fadd (Finite c) (Finite d) = Finite y"
    by (simp add: to_double_def y_def x_def)
  moreover have "\<bar>y - c - d\<bar> \<le> 1 / 2 ^ 51" using err by (simp add: x_def algebra_simps)
  ultimately show ?thesis by blast
qed

text \<open>An integer of at most 53 bits is a double: arithmetic on such integers is exact.\<close>

lemma round_to_double_of_nat_pos:
  assumes "0 < k" and "k \<le> 2 ^ 53"
  shows "round_to_double (of_int k) = of_int k"
proof -
  let ?x = "of_int k :: real"
  have pos: "0 < ?x" using assms(1) by simp
  have up: "?x \<le> 2 powi 53"
  proof -
    have "?x \<le> of_int (2 ^ 53)" using assms(2) by (simp only: of_int_le_iff)
    then show ?thesis by simp
  qed
  show ?thesis
  proof (cases "?x = 2 powi 53")
    case True
    have "round_to_double (2 powi 53) = 2 powi 53"
      by (rule round_to_double_two_powi) simp
    then show ?thesis by (simp only: True)
  next
    case False
    with up have "?x < 2 powi 53" by simp
    with pos have fe: "float_exponent ?x < 53" by (rule float_exponent_less)
    have "1 \<le> ?x" using assms(1) by simp
    then have "(2::real) powi 0 \<le> ?x" by simp
    moreover have "?x < 2 powi (float_exponent ?x + 1)" using pos by (rule float_exponent_bounds)
    ultimately have "(2::real) powi 0 < 2 powi (float_exponent ?x + 1)" by linarith
    then have fe0: "0 \<le> float_exponent ?x" by (simp only: two_powi_less_iff)
    define d where "d = nat (52 - float_exponent ?x)"
    have b: "binade ?x = float_exponent ?x" using fe0 pos by (simp add: binade_def)
    have "(2::real) powi (int d + (binade ?x - 52)) = 2 powi (int d) * 2 powi (binade ?x - 52)"
      by (rule two_powi_add)
    moreover have "int d + (binade ?x - 52) = 0" using fe by (simp add: d_def b)
    ultimately have "2 ^ d * ulp_of ?x = 1" by (simp add: ulp_of_def)
    then have "?x / ulp_of ?x = ?x * 2 ^ d"
      using ulp_of_pos [of ?x] by (simp add: field_simps)
    then have "?x / ulp_of ?x = of_int (k * 2 ^ d)" by simp
    with pos show ?thesis by (rule round_to_double_of_int_ulp)
  qed
qed

lemma to_double_of_int:
  assumes "\<bar>k\<bar> \<le> 2 ^ 53"
  shows "to_double (of_int k) = Finite (of_int k)"
proof -
  have r: "round_to_double (of_int k) = of_int k"
  proof -
    consider "0 < k" | "k = 0" | "k < 0" by linarith
    then show ?thesis
    proof cases
      case 1
      then show ?thesis using assms by (intro round_to_double_of_nat_pos) simp_all
    next
      case 2
      then show ?thesis by (simp add: round_to_double_def)
    next
      case 3
      then have "round_to_double (of_int (- k)) = of_int (- k)"
        using assms by (intro round_to_double_of_nat_pos) simp_all
      then show ?thesis by (simp add: round_to_double_minus)
    qed
  qed
  have "\<bar>of_int k :: real\<bar> \<le> of_int (2 ^ 53)"
    using assms by (simp only: of_int_abs [symmetric] of_int_le_iff)
  then have "\<bar>of_int k :: real\<bar> \<le> 2 ^ 53" by simp
  also have "(2::real) ^ 53 < 2 ^ 1024" by (rule power_strict_increasing) simp_all
  finally have "\<bar>of_int k :: real\<bar> < 2 ^ 1024" .
  then show ?thesis by (simp add: to_double_def r)
qed

text \<open>The equations that compute a rounding on numerals.\<close>

lemmas float_eval =
  round_to_double_def float_exponent_def round_half_even_def log2f.simps Let_def ulp_of_def
  binade_def to_double_def


section \<open>Overlaying preserves the length of the track\<close>

lemma length_overlay [simp]: "length (overlay seg clip p) = length seg"
  by (auto simp: overlay_def Let_def min_def)

lemma overlay_nth:
  assumes "0 \<le> p" and "i < length seg"
  shows "overlay seg clip p ! i =
           (if nat p \<le> i \<and> i < nat p + length clip
            then clamp_sample (seg ! i + clip ! (i - nat p)) else seg ! i)"
proof -
  let ?p = "nat p"
  have ov: "overlay seg clip p =
              take ?p seg @ map2 (\<lambda>a b. clamp_sample (a + b)) (drop ?p seg) clip @
              drop (?p + length clip) seg"
    using assms(1) by (simp add: overlay_def Let_def)
  consider "i < ?p" | "?p \<le> i" "i < ?p + length clip" | "?p + length clip \<le> i" by linarith
  then show ?thesis
  proof cases
    case 1
    then show ?thesis using assms(2) by (simp add: ov nth_append)
  next
    case 2
    then have a: "i - ?p < length seg - ?p" and b: "i - ?p < length clip"
      using assms(2) by linarith+
    then have "i - ?p < length (map2 (\<lambda>a b. clamp_sample (a + b)) (drop ?p seg) clip)" by simp
    then show ?thesis using 2 a b assms(2) by (simp add: ov nth_append min_def)
  next
    case 3
    then have c: "\<not> length seg - ?p \<le> length clip" "\<not> i - ?p < length clip" "\<not> i < ?p"
      and d: "?p + length clip + (i - ?p - length clip) = i"
      using assms(2) by linarith+
    show ?thesis using 3 c assms(2) by (simp add: ov nth_append min_def d)
  qed
qed




text \<open>When no event is dropped, the track is the fold of the overlays over the offsets.\<close>

lemma overlay_collisions_all:
  assumes "\<forall>t\<in>set ts. \<exists>ms. py_int (fmul t (Finite 1000)) = Inr ms \<and> ms < int (length a)"
  shows "\<exists>offsets. overlay_collisions clip a ts =
             Inr (foldl (\<lambda>seg ms. overlay seg clip ms) a offsets) \<and>
           list_all2 (\<lambda>t ms. py_int (fmul t (Finite 1000)) = Inr ms) ts offsets"
  using assms
proof (induction ts arbitrary: a)
  case Nil
  show ?case by (intro exI [of _ "[]"]) simp
next
  case (Cons t ts)
  from Cons.prems obtain ms where ms: "py_int (fmul t (Finite 1000)) = Inr ms"
    and lt: "ms < int (length a)" by auto
  let ?a = "overlay a clip ms"
  have step: "overlay_collision clip a t = Inr ?a"
    using ms lt by (simp add: overlay_collision_def)
  have "\<forall>t\<in>set ts. \<exists>ms. py_int (fmul t (Finite 1000)) = Inr ms \<and> ms < int (length ?a)"
    using Cons.prems by simp
  from Cons.IH [OF this] obtain offsets
    where "overlay_collisions clip ?a ts = Inr (foldl (\<lambda>seg ms. overlay seg clip ms) ?a offsets)"
      and "list_all2 (\<lambda>t ms. py_int (fmul t (Finite 1000)) = Inr ms) ts offsets"
    by blast
  then show ?case using step ms
    by (intro exI [of _ "ms # offsets"]) simp
qed

text \<open>After the acquisition step the sound file exists.\<close>

lemma acquire_collision_sound_exists:
  "\<exists>clip. fst (acquire_collision_sound tone fs) collision_sound_path = Some clip"
  by (auto simp: acquire_collision_sound_def generate_collision_sound_def)

text \<open>
  The length of the silence for a whole number of seconds, and the track as long as the
  silence it starts from.
\<close>

lemma silent_length_whole_seconds:
  assumes "0 < n" and "11025 * n \<le> 2 ^ 53"
  shows "silent_length (PyInt (n * 1000)) = Inr (nat (n * 1000))"
    and "silent_length (PyFloat (Finite (of_int (n * 1000)))) = Inr (nat (n * 1000))"
proof -
  have a: "\<bar>n * 1000\<bar> \<le> 2 ^ 53" "\<bar>n\<bar> \<le> 2 ^ 53" "\<bar>11025 * n\<bar> \<le> 2 ^ 53"
    "\<bar>1000 * n\<bar> \<le> 2 ^ 53"
    using assms by simp_all
  have 1: "int_to_float (n * 1000) = Inr (Finite (of_int (n * 1000)))"
    by (simp only: int_to_float_def to_double_of_int [OF a(1)] pyfloat.case)
  have 2: "fdiv (Finite (of_int (n * 1000))) (Finite 1000) = Inr (Finite (of_int n))"
    using to_double_of_int [OF a(2)] by simp
  have 3: "fmul (Finite 11025) (Finite (of_int n)) = Finite (of_int (11025 * n))"
    using to_double_of_int [OF a(3)] by simp
  have "0 \<le> (of_int (11025 * n) :: real)" using assms(1) by simp
  then have 4: "py_int (Finite (of_int (11025 * n))) = Inr (11025 * n)"
    by (simp only: py_int.simps if_True floor_of_int)
  have "max 0 (11025 * n) = 11025 * n" using assms(1) by simp
  then have 5: "int_to_float (max 0 (11025 * n)) = Inr (Finite (of_int (11025 * n)))"
    by (simp only: int_to_float_def to_double_of_int [OF a(3)] pyfloat.case)
  have 6: "fdiv (Finite (of_int (11025 * n))) (Finite 11025) = Inr (Finite (of_int n))"
    using to_double_of_int [OF a(2)] by simp
  have 7: "fmul (Finite 1000) (Finite (of_int n)) = Finite (of_int (1000 * n))"
    using to_double_of_int [OF a(4)] by simp
  have 8: "py_round (Finite (of_int (1000 * n))) = Inr (1000 * n)"
    by (simp only: py_round.simps round_half_even_of_int)
  have tail: "(case py_int (fmul (Finite 11025) (Finite (of_int n))) of
        Inl e \<Rightarrow> Inl e
      | Inr k \<Rightarrow>
     (case int_to_float (max 0 k) of
        Inl e \<Rightarrow> Inl e
      | Inr frame_count \<Rightarrow>
     (case fdiv frame_count (Finite 11025) of
        Inl e \<Rightarrow> Inl e
      | Inr r \<Rightarrow>
     (case py_round (fmul (Finite 1000) r) of
        Inl e \<Rightarrow> Inl e
      | Inr ms \<Rightarrow> Inr (nat ms))))) = Inr (nat (n * 1000))"
    by (simp only: 3 4 5 6 7 8 sum.case) (simp add: mult.commute)
  show "silent_length (PyInt (n * 1000)) = Inr (nat (n * 1000))"
    unfolding silent_length_def by (simp only: num_div_float.simps 1 2 sum.case tail)
  show "silent_length (PyFloat (Finite (of_int (n * 1000)))) = Inr (nat (n * 1000))"
    unfolding silent_length_def by (simp only: num_div_float.simps 2 sum.case tail)
qed


lemma silent_segment_script:
  "silent_segment (ms_of_seconds (PyInt DURATION)) = Inr (silent (DURATION * 1000))"
proof -
  have "silent_length (PyInt (5 * 1000)) = Inr (nat (5 * 1000))"
    by (rule silent_length_whole_seconds) simp_all
  then show ?thesis by (simp add: silent_segment_def DURATION_def)
qed



section \<open>The loop, step by step\<close>

lemma collision_handler_funpow:
  "(collision_handler ^^ k) w = w\<lparr>collision_times := collision_times w @ replicate k (current_time w)\<rparr>"
proof (induction k)
  case 0
  show ?case by simp
next
  case (Suc k)
  then show ?case
    by (simp add: collision_handler_def replicate_append_same)
qed

lemma advance_frame_fields:
  "engine (advance_frame w dt outcome frame) = fst outcome"
  "current_time (advance_frame w dt outcome frame) = fadd (current_time w) dt"
  "collision_times (advance_frame w dt outcome frame) =
     collision_times w @ replicate (snd outcome) (current_time w)"
  "frames (advance_frame w dt outcome frame) =
     frames w @ [(frame, fadd (current_time w) dt, fst outcome)]"
  by (simp_all add: advance_frame_def Let_def draw_frame_def collision_handler_funpow)

lemma sim_loop_append:
  "sim_loop step fr (xs @ ys) w =
     (case sim_loop step fr xs w of Inl e \<Rightarrow> Inl e | Inr w' \<Rightarrow> sim_loop step fr ys w')"
  by (induction xs arbitrary: w) (auto split: sum.splits)

lemma sim_loop_steps:
  assumes dt: "truediv 1 fr = Inr dt"
    and init: "I 0 w"
    and step: "\<And>n v. n < length fs \<Longrightarrow> I n v \<Longrightarrow>
                 I (Suc n) (advance_frame v dt (step (engine v) dt) (fs ! n))"
  shows "\<exists>w'. sim_loop step fr fs w = Inr w' \<and> I (length fs) w'"
  using init step
proof (induction fs arbitrary: w I)
  case Nil
  then show ?case by simp
next
  case (Cons f fs)
  let ?v = "advance_frame w dt (step (engine w) dt) f"
  have 1: "I (Suc 0) ?v" using Cons.prems(2) [of 0 w] Cons.prems(1) by simp
  have 2: "\<And>n v. n < length fs \<Longrightarrow> I (Suc n) v \<Longrightarrow>
             I (Suc (Suc n)) (advance_frame v dt (step (engine v) dt) (fs ! n))"
    using Cons.prems(2) by fastforce
  from Cons.IH [of "\<lambda>n. I (Suc n)" ?v, OF 1 2]
  show ?case by (simp add: dt)
qed

text \<open>The clock and the timestamps after a run from the initial state.\<close>

lemma clock_after_Suc: "clock_after dt (Suc n) = fadd (clock_after dt n) dt"
  by (simp add: clock_after_def)

lemma sim_loop_clock:
  fixes e :: 's
  assumes dt: "truediv 1 fr = Inr dt"
  shows "\<exists>w'. sim_loop step fr fs (initial_world e) = Inr w' \<and>
           current_time w' = clock_after dt (length fs) \<and>
           set (collision_times w') \<subseteq> clock_after dt ` {0..<length fs}"
proof -
  let ?I = "\<lambda>n (v :: 's world). current_time v = clock_after dt n \<and>
                   set (collision_times v) \<subseteq> clock_after dt ` {0..<n}"
  have "\<exists>w'. sim_loop step fr fs (initial_world e) = Inr w' \<and> ?I (length fs) w'"
  proof (rule sim_loop_steps [OF dt])
    show "?I 0 (initial_world e)" by (simp add: initial_world_def clock_after_def)
  next
    fix n and v :: "'s world"
    assume "?I n v"
    then show "?I (Suc n) (advance_frame v dt (step (engine v) dt) (fs ! n))"
      by (auto simp: advance_frame_fields clock_after_def less_Suc_eq)
  qed
  then show ?thesis by blast
qed

lemma py_range_length [simp]: "length (py_range n) = nat n"
  by (simp add: py_range_def)

lemma py_range_Suc: "py_range (int (Suc n)) = py_range (int n) @ [n]"
  by (simp add: py_range_def del: of_nat_Suc)

lemma sorted_wrt_replicate_refl: "R x x \<Longrightarrow> sorted_wrt R (replicate k x)"
  by (induction k) auto

section \<open>The clock of the script, value by value\<close>

text \<open>
  With \<^verbatim>\<open>FRAME_RATE = 60\<close> the step is the double nearest to \<open>1 / 60\<close>. The 301 values
  that the clock takes are computed one after the other and checked against their
  bounds.
\<close>

lemma clocks_ok_unfold:
  "clocks_ok P dt n k c = (if n = 0 then True else P k c \<and> clocks_ok P dt (n - 1) (k + 1) (fadd c dt))"
  by (cases n) simp_all

lemma clocks_ok_funpow:
  "clocks_ok P dt n k c \<Longrightarrow> i < n \<Longrightarrow> P (k + i) (((\<lambda>c. fadd c dt) ^^ i) c)"
proof (induction n arbitrary: k c i)
  case 0
  then show ?case by simp
next
  case (Suc n)
  show ?case
  proof (cases i)
    case 0
    with Suc.prems show ?thesis by simp
  next
    case (Suc j)
    with Suc.prems have "clocks_ok P dt n (k + 1) (fadd c dt)" and "j < n" by simp_all
    from Suc.IH [OF this] show ?thesis
      by (simp add: Suc funpow_Suc_right del: funpow.simps)
  qed
qed

lemma truediv_frame_rate:
  "truediv 1 FRAME_RATE = Inr (Finite (4803839602528529 / 288230376151711744))"
  by (simp add: truediv_def FRAME_RATE_def float_eval)

lemma last_frame_bound:
  "fmul (Finite 299) (Finite (4803839602528529 / 288230376151711744)) =
     Finite (5610734535765743 / 1125899906842624)"
  by (simp add: float_eval)

lemma last_frame_offset:
  "round_to_double (5610734535765743 / 1125899906842624 * 1000) =
     5479232945083733 / 1099511627776"
  by (simp add: float_eval)
lemma clock_table:
  "clocks_ok (clock_bound (4803839602528529 / 288230376151711744)
                (5610734535765743 / 1125899906842624))
     (Finite (4803839602528529 / 288230376151711744)) 301 0 (Finite 0)"
  by (simp add: clocks_ok_unfold clock_bound_def float_eval)

lemma clock_after_table:
  assumes "n \<le> 300"
  shows "\<exists>c. clock_after (Finite (4803839602528529 / 288230376151711744)) n = Finite c \<and>
           \<bar>c - real n * (4803839602528529 / 288230376151711744)\<bar>
              \<le> \<bar>real n * (4803839602528529 / 288230376151711744)\<bar> / 10 ^ 9 \<and>
           (n < 300 \<longrightarrow> 0 \<le> c \<and> c \<le> 5610734535765743 / 1125899906842624)"
proof -
  from assms have "n < 301" by simp
  from clocks_ok_funpow [OF clock_table this]
  show ?thesis
    by (auto simp: clock_after_def clock_bound_def split: pyfloat.splits)
qed

text \<open>The run of the sample engine: one collision, during the seventh call.\<close>

lemma clock_after_six:
  "clock_after (Finite (4803839602528529 / 288230376151711744)) 6 =
     Finite (7205759403792793 / 72057594037927936)"
proof -
  have "clock_after dt 6 = fadd (fadd (fadd (fadd (fadd (fadd (Finite 0) dt) dt) dt) dt) dt) dt"
    for dt
    by (simp add: clock_after_def eval_nat_numeral)
  then show ?thesis by (simp add: float_eval)
qed

lemma demo_run:
  "\<exists>w. simulate demo_engine 0 FRAME_RATE DURATION = Inr w \<and>
       collision_times w = [Finite (7205759403792793 / 72057594037927936)]"
proof -
  let ?dt = "Finite (4803839602528529 / 288230376151711744)"
  let ?fs = "py_range (FRAME_RATE * DURATION)"
  let ?I = "\<lambda>n (v :: nat world). engine v = n \<and> current_time v = clock_after ?dt n \<and>
              collision_times v = (if n \<le> 6 then [] else [clock_after ?dt 6])"
  have "\<exists>w. sim_loop demo_engine FRAME_RATE ?fs (initial_world 0) = Inr w \<and> ?I (length ?fs) w"
  proof (rule sim_loop_steps [OF truediv_frame_rate])
    show "?I 0 (initial_world 0)" by (simp add: initial_world_def clock_after_def)
  next
    fix n and v :: "nat world"
    assume inv: "?I n v"
    let ?v' = "advance_frame v ?dt (demo_engine (engine v) ?dt) (?fs ! n)"
    have 1: "engine ?v' = Suc n"
      using inv by (simp add: advance_frame_fields demo_engine_def)
    have 2: "current_time ?v' = clock_after ?dt (Suc n)"
      using inv by (simp add: advance_frame_fields clock_after_Suc)
    have 3: "collision_times ?v' = (if Suc n \<le> 6 then [] else [clock_after ?dt 6])"
    proof -
      consider "n < 6" | "n = 6" | "6 < n" by linarith
      then show ?thesis
        using inv by cases (simp_all add: advance_frame_fields demo_engine_def)
    qed
    from 1 2 3 show "?I (Suc n) ?v'" by simp
  qed
  then show ?thesis
    by (auto simp: simulate_def FRAME_RATE_def DURATION_def clock_after_six)
qed

text \<open>The run of the second engine: three collisions, two of them in one step.\<close>

lemma clock_after_one:
  "clock_after (Finite (4803839602528529 / 288230376151711744)) 1 =
     Finite (4803839602528529 / 288230376151711744)"
  by (simp add: clock_after_def float_eval)

lemma clock_after_three:
  "clock_after (Finite (4803839602528529 / 288230376151711744)) 3 =
     Finite (3602879701896397 / 72057594037927936)"
proof -
  have "clock_after dt 3 = fadd (fadd (fadd (Finite 0) dt) dt) dt" for dt
    by (simp add: clock_after_def eval_nat_numeral)
  then show ?thesis by (simp add: float_eval)
qed

lemma bounce_run:
  "\<exists>w. simulate bounce_engine 0 FRAME_RATE DURATION = Inr w \<and>
       collision_times w =
         [Finite (4803839602528529 / 288230376151711744),
          Finite (4803839602528529 / 288230376151711744),
          Finite (3602879701896397 / 72057594037927936)]"
proof -
  let ?dt = "Finite (4803839602528529 / 288230376151711744)"
  let ?fs = "py_range (FRAME_RATE * DURATION)"
  let ?I = "\<lambda>n (v :: nat world). engine v = n \<and> current_time v = clock_after ?dt n \<and>
              collision_times v =
                (if n \<le> 1 then []
                 else if n \<le> 3 then [clock_after ?dt 1, clock_after ?dt 1]
                 else [clock_after ?dt 1, clock_after ?dt 1, clock_after ?dt 3])"
  have "\<exists>w. sim_loop bounce_engine FRAME_RATE ?fs (initial_world 0) = Inr w \<and> ?I (length ?fs) w"
  proof (rule sim_loop_steps [OF truediv_frame_rate])
    show "?I 0 (initial_world 0)" by (simp add: initial_world_def clock_after_def)
  next
    fix n and v :: "nat world"
    assume inv: "?I n v"
    let ?v' = "advance_frame v ?dt (bounce_engine (engine v) ?dt) (?fs ! n)"
    have 1: "engine ?v' = Suc n"
      using inv by (simp add: advance_frame_fields bounce_engine_def)
    have 2: "current_time ?v' = clock_after ?dt (Suc n)"
      using inv by (simp add: advance_frame_fields clock_after_Suc)
    have 3: "collision_times ?v' =
                (if Suc n \<le> 1 then []
                 else if Suc n \<le> 3 then [clock_after ?dt 1, clock_after ?dt 1]
                 else [clock_after ?dt 1, clock_after ?dt 1, clock_after ?dt 3])"
    proof -
      consider "n = 0" | "n = 1" | "n = 2" | "n = 3" | "3 < n" by linarith
      then show ?thesis
        using inv
        by cases (simp_all add: advance_frame_fields bounce_engine_def numeral_2_eq_2)
    qed
    from 1 2 3 show "?I (Suc n) ?v'" by simp
  qed
  then show ?thesis
    by (auto simp: simulate_def FRAME_RATE_def DURATION_def clock_after_one [unfolded One_nat_def]
        clock_after_three)
qed

section \<open>The claims\<close>

subsection \<open>C1: what the synthesizer does with one event\<close>

text \<open>
  Claim C1 says that no timestamp raises an error, and that the clip is mixed in by
  addition. A non-negative finite float whose product with 1000 overflows gives an
  infinity, and \<^verbatim>\<open>int\<close> of an infinity raises \<^verbatim>\<open>OverflowError\<close>: here for the timestamp
  \<open>2 ^ 1020\<close>. And a sum of samples that leaves the range of a sample is clamped: 20000
  mixed onto 20000 gives 32767.
\<close>

theorem huge_timestamp_raises_counterexample:
  "overlay_collision [1] (silent 5000) (Finite (2 ^ 1020)) = Inl OverflowError \<and>
   overlay_collision [20000, 20000] [20000, 20000] (Finite 0) = Inr [32767, 32767]"
proof -
  have "(2::real) ^ 1024 \<le> 2 ^ 1020 * 1000"
  proof -
    have "(2::real) ^ 1024 = 2 ^ 1020 * 2 ^ 4" by (simp only: power_add [symmetric]) simp
    also have "\<dots> \<le> 2 ^ 1020 * 1000" by (intro mult_left_mono) simp_all
    finally show ?thesis .
  qed
  then have "fmul (Finite (2 ^ 1020)) (Finite 1000) = PosInf"
    by (simp add: to_double_overflow)
  then have "overlay_collision [1] (silent 5000) (Finite (2 ^ 1020)) = Inl OverflowError"
    by (simp add: overlay_collision_def)
  moreover have "overlay_collision [20000, 20000] [20000, 20000] (Finite 0) = Inr [32767, 32767]"
    by (simp add: overlay_collision_def overlay_def clamp_sample_def to_double_def
        round_to_double_def)
  ultimately show ?thesis by (simp del: fmul.simps)
qed

text \<open>
  Claim C1, as amended. Let \<open>x \<ge> 0\<close> be a finite timestamp and \<open>y\<close> its product with 1000,
  rounded. If \<open>y\<close> is below \<open>2 ^ 1024\<close>, the product is the finite float \<open>y\<close> and the offset
  is \<open>\<lfloor>y\<rfloor>\<close>, a natural number. If the offset is less than the length of the buffer, the
  clip is overlaid from that offset: the buffer keeps its length, every sample under the
  clip is the sum of the sample that was there and the sample of the clip, clamped to the
  range of a 16-bit sample (a sum within the range is left as it is), and every other
  sample is unchanged. Otherwise the buffer is returned as it is, and nothing is raised.
  If \<open>y\<close> is \<open>2 ^ 1024\<close> or more, the product is infinite and \<^verbatim>\<open>OverflowError\<close> is raised.
\<close>

theorem overlay_collision_mixes:
  assumes "0 \<le> x" and "y = round_to_double (x * 1000)"
  shows "(y < 2 ^ 1024 \<longrightarrow>
            fmul (Finite x) (Finite 1000) = Finite y \<and> 0 \<le> \<lfloor>y\<rfloor> \<and>
            overlay_collision clip audio (Finite x) =
              Inr (if \<lfloor>y\<rfloor> < int (length audio) then overlay audio clip \<lfloor>y\<rfloor> else audio) \<and>
            length (overlay audio clip \<lfloor>y\<rfloor>) = length audio \<and>
            (\<forall>i<length audio. overlay audio clip \<lfloor>y\<rfloor> ! i =
               (if nat \<lfloor>y\<rfloor> \<le> i \<and> i < nat \<lfloor>y\<rfloor> + length clip
                then clamp_sample (audio ! i + clip ! (i - nat \<lfloor>y\<rfloor>)) else audio ! i)) \<and>
            (\<forall>v. - 32768 \<le> v \<and> v \<le> 32767 \<longrightarrow> clamp_sample v = v)) \<and>
         (2 ^ 1024 \<le> y \<longrightarrow>
            fmul (Finite x) (Finite 1000) = PosInf \<and>
            overlay_collision clip audio (Finite x) = Inl OverflowError)"
proof (intro conjI impI)
  have "0 \<le> x * 1000" using assms(1) by simp
  then have ynn: "0 \<le> y" unfolding assms(2) by (rule round_to_double_nonneg)
  then show "0 \<le> \<lfloor>y\<rfloor>" by simp
  then show "\<forall>i<length audio. overlay audio clip \<lfloor>y\<rfloor> ! i =
               (if nat \<lfloor>y\<rfloor> \<le> i \<and> i < nat \<lfloor>y\<rfloor> + length clip
                then clamp_sample (audio ! i + clip ! (i - nat \<lfloor>y\<rfloor>)) else audio ! i)"
    by (simp add: overlay_nth)
  show "length (overlay audio clip \<lfloor>y\<rfloor>) = length audio" by simp
  show "\<forall>v. - 32768 \<le> v \<and> v \<le> 32767 \<longrightarrow> clamp_sample v = v"
    by (simp add: clamp_sample_def)
  {
    assume "y < 2 ^ 1024"
    with ynn have "\<bar>y\<bar> < 2 ^ 1024" by simp
    then show m: "fmul (Finite x) (Finite 1000) = Finite y"
      by (simp add: to_double_def assms(2) [symmetric])
    show "overlay_collision clip audio (Finite x) =
            Inr (if \<lfloor>y\<rfloor> < int (length audio) then overlay audio clip \<lfloor>y\<rfloor> else audio)"
      using ynn by (simp add: overlay_collision_def m del: fmul.simps)
  }
  {
    assume big: "2 ^ 1024 \<le> y"
    then have "0 < y" by (smt (verit) zero_less_power)
    with big show inf: "fmul (Finite x) (Finite 1000) = PosInf"
      by (simp add: to_double_def assms(2) [symmetric])
    show "overlay_collision clip audio (Finite x) = Inl OverflowError"
      by (simp add: overlay_collision_def inf del: fmul.simps)
  }
qed

text \<open>
  An instance of the amended C1: the timestamp \<open>1 / 60\<close> has offset 16; it is mixed into a
  buffer of 18 ms and dropped from a buffer of 16 ms; the timestamp \<open>2 ^ 1021\<close> raises.
\<close>

theorem overlay_collision_mixes_witness:
  "overlay_collision [3, 4] [1, 1, 1, 1, 1, 1, 1, 1, 1, 1, 1, 1, 1, 1, 1, 1, 1, 1]
     (Finite (4803839602528529 / 288230376151711744)) =
       Inr [1, 1, 1, 1, 1, 1, 1, 1, 1, 1, 1, 1, 1, 1, 1, 1, 4, 5] \<and>
   overlay_collision [3, 4] [1, 1, 1, 1, 1, 1, 1, 1, 1, 1, 1, 1, 1, 1, 1, 1]
     (Finite (4803839602528529 / 288230376151711744)) =
       Inr [1, 1, 1, 1, 1, 1, 1, 1, 1, 1, 1, 1, 1, 1, 1, 1] \<and>
   overlay_collision [3, 4] [1, 1] (Finite (2 ^ 1021)) = Inl OverflowError"
proof -
  let ?x = "4803839602528529 / 288230376151711744 :: real"
  let ?y = "4691249611844267 / 281474976710656 :: real"
  have x: "0 \<le> ?x" by simp
  have y: "?y = round_to_double (?x * 1000)"
    by (simp add: float_eval)
  have small: "?y < 2 ^ 1024"
  proof -
    have "?y < (2::real) ^ 5" by simp
    also have "\<dots> \<le> 2 ^ 1024" by (rule power_increasing) simp_all
    finally show ?thesis .
  qed
  have f: "\<lfloor>?y\<rfloor> = 16" by simp
  have x2: "0 \<le> (2::real) ^ 1021" by simp
  have big: "2 ^ 1024 \<le> round_to_double (2 ^ 1021 * 1000)"
  proof -
    have "(2::real) ^ 1024 = 2 ^ 1021 * 2 ^ 3" by (simp only: power_add [symmetric]) simp
    also have "\<dots> \<le> 2 ^ 1021 * 1000" by (intro mult_left_mono) simp_all
    finally have "round_to_double (2 ^ 1024) \<le> round_to_double (2 ^ 1021 * 1000)"
      by (rule round_to_double_mono)
    moreover have "round_to_double (2 powi 1024) = 2 powi 1024"
      by (rule round_to_double_two_powi) simp
    ultimately show ?thesis by simp
  qed
  show ?thesis
    using overlay_collision_mixes [OF x y, of "[3, 4]" "[1, 1, 1, 1, 1, 1, 1, 1, 1, 1, 1, 1, 1, 1, 1, 1, 1, 1]"]
      overlay_collision_mixes [OF x y, of "[3, 4]" "[1, 1, 1, 1, 1, 1, 1, 1, 1, 1, 1, 1, 1, 1, 1, 1]"]
      overlay_collision_mixes [OF x2 refl, of "[3, 4]" "[1, 1]"] small big
    by (simp add: f overlay_def clamp_sample_def del: fmul.simps)
qed

subsection \<open>C2: the offset is truncated, not rounded\<close>

text \<open>
  Claim C2 says that the overlay starts at \<open>round (time * 1000)\<close>. For the timestamp
  \<open>1 / 60\<close> the product is about 16.67: the script overlays at 16, rounding gives 17, and
  the two tracks differ.
\<close>

theorem offset_is_not_rounded_counterexample:
  "overlay_collision [3, 4] (silent 20) (Finite (4803839602528529 / 288230376151711744)) =
     Inr (overlay (silent 20) [3, 4] 16) \<and>
   py_round (fmul (Finite (4803839602528529 / 288230376151711744)) (Finite 1000)) = Inr 17 \<and>
   overlay (silent 20) [3, 4] 16 \<noteq> overlay (silent 20) [3, 4] 17"
proof -
  let ?x = "4803839602528529 / 288230376151711744 :: real"
  let ?y = "4691249611844267 / 281474976710656 :: real"
  have m: "fmul (Finite ?x) (Finite 1000) = Finite ?y"
    by (simp add: float_eval)
  have f: "\<lfloor>?y\<rfloor> = 16" by simp
  have r: "round_half_even ?y = 17" by (simp add: round_half_even_def)
  have "overlay_collision [3, 4] (silent 20) (Finite ?x) = Inr (overlay (silent 20) [3, 4] 16)"
    by (simp add: overlay_collision_def m f silent_def del: fmul.simps)
  moreover have "py_round (fmul (Finite ?x) (Finite 1000)) = Inr 17"
    by (simp add: m r del: fmul.simps)
  moreover have "overlay (silent 20) [3, 4] 16 \<noteq> overlay (silent 20) [3, 4] 17"
    by (simp add: overlay_def silent_def clamp_sample_def numeral_eq_Suc)
  ultimately show ?thesis by simp
qed

text \<open>
  Claim C2, as amended. For every timestamp whose product with 1000 is a finite float
  \<open>y\<close>, the overlay starts at \<^verbatim>\<open>int(y)\<close>, which is \<open>y\<close> truncated towards zero: the integer
  of the same sign with \<open>\<bar>ms\<bar> \<le> \<bar>y\<bar> < \<bar>ms\<bar> + 1\<close>.
\<close>

theorem offset_is_truncated:
  assumes "fmul t (Finite 1000) = Finite y"
  shows "\<exists>ms. py_int (fmul t (Finite 1000)) = Inr ms \<and>
           ms = (if 0 \<le> y then \<lfloor>y\<rfloor> else \<lceil>y\<rceil>) \<and>
           \<bar>of_int ms\<bar> \<le> \<bar>y\<bar> \<and> \<bar>y\<bar> < \<bar>of_int ms\<bar> + 1 \<and>
           overlay_collision clip audio t =
             Inr (if ms < int (length audio) then overlay audio clip ms else audio)"
proof -
  have "\<bar>of_int (if 0 \<le> y then \<lfloor>y\<rfloor> else \<lceil>y\<rceil>)\<bar> \<le> \<bar>y\<bar>" by (simp; linarith)
  moreover have "\<bar>y\<bar> < \<bar>of_int (if 0 \<le> y then \<lfloor>y\<rfloor> else \<lceil>y\<rceil>)\<bar> + 1" by (simp; linarith)
  ultimately show ?thesis
    by (simp add: overlay_collision_def assms)
qed

text \<open>An instance of the amended C2 at the timestamp \<open>1 / 60\<close>.\<close>

theorem offset_is_truncated_witness:
  "py_int (fmul (Finite (4803839602528529 / 288230376151711744)) (Finite 1000)) = Inr 16 \<and>
   overlay_collision [3, 4] (silent 20) (Finite (4803839602528529 / 288230376151711744)) =
     Inr (overlay (silent 20) [3, 4] 16)"
proof -
  let ?x = "4803839602528529 / 288230376151711744 :: real"
  let ?y = "4691249611844267 / 281474976710656 :: real"
  have m: "fmul (Finite ?x) (Finite 1000) = Finite ?y"
    by (simp add: float_eval)
  have f: "\<lfloor>?y\<rfloor> = 16" by simp
  show ?thesis
    using offset_is_truncated [OF m, of "[3, 4]" "silent 20"]
    by (simp add: f m silent_def del: fmul.simps)
qed

subsection \<open>C3: the length of the audio track\<close>




subsection \<open>C4: the clock after \<open>n\<close> steps\<close>

text \<open>
  Claim C4. With \<open>dt\<close> the float \<^verbatim>\<open>1 / FRAME_RATE\<close>, for every \<open>n\<close> from 0 to
  \<^verbatim>\<open>TOTAL_FRAMES\<close> the loop over the first \<open>n\<close> frames ends without error with
  \<^verbatim>\<open>space.current_time\<close> a finite float within a relative \<open>10\<^sup>-\<^sup>9\<close> of \<open>n * dt\<close>; and the next
  step, if there is one, raises the clock by \<open>dt\<close> within a relative \<open>10\<^sup>-\<^sup>9\<close> of \<open>dt\<close>.
\<close>

theorem clock_is_frames_times_dt:
  fixes e :: 's
  assumes dt: "truediv 1 FRAME_RATE = Inr (Finite dt)" and n: "int n \<le> TOTAL_FRAMES"
  shows "\<exists>w c. sim_loop step FRAME_RATE (py_range (int n)) (initial_world e) = Inr w \<and>
           current_time w = Finite c \<and>
           \<bar>c - real n * dt\<bar> \<le> \<bar>real n * dt\<bar> / 10 ^ 9 \<and>
           (int n < TOTAL_FRAMES \<longrightarrow>
              (\<exists>c'. fadd (current_time w) (Finite dt) = Finite c' \<and>
                    \<bar>c' - c - dt\<bar> \<le> \<bar>dt\<bar> / 10 ^ 9))"
proof -
  let ?d = "4803839602528529 / 288230376151711744 :: real"
  from dt have d: "dt = ?d"
    by (simp add: truediv_frame_rate)
  from n have n300: "n \<le> 300" by (simp add: TOTAL_FRAMES_def FRAME_RATE_def DURATION_def)
  from clock_after_table [OF this] obtain c
    where c: "clock_after (Finite dt) n = Finite c"
      and near: "\<bar>c - real n * dt\<bar> \<le> \<bar>real n * dt\<bar> / 10 ^ 9"
      and small: "n < 300 \<longrightarrow> 0 \<le> c \<and> c \<le> 5610734535765743 / 1125899906842624"
    unfolding d by blast
  from sim_loop_clock [OF dt, of step "py_range (int n)" e] obtain w
    where w: "sim_loop step FRAME_RATE (py_range (int n)) (initial_world e) = Inr w"
      and cw: "current_time w = clock_after (Finite dt) n"
    by auto
  have "\<exists>c'. fadd (current_time w) (Finite dt) = Finite c' \<and> \<bar>c' - c - dt\<bar> \<le> \<bar>dt\<bar> / 10 ^ 9"
    if "int n < TOTAL_FRAMES"
  proof -
    from that have "n < 300" by (simp add: TOTAL_FRAMES_def FRAME_RATE_def DURATION_def)
    with small have "0 \<le> c" and "c < 5" by simp_all
    moreover have "0 < ?d" and "?d < 1" by simp_all
    ultimately obtain c' where a: "fadd (Finite c) (Finite ?d) = Finite c'"
      and b: "\<bar>c' - c - ?d\<bar> \<le> 1 / 2 ^ 51"
      using fadd_small_error by blast
    have "current_time w = Finite c" using cw c by simp
    then have "fadd (current_time w) (Finite dt) = Finite c'" by (simp only: d a)
    moreover have "(1::real) / 2 ^ 51 \<le> \<bar>?d\<bar> / 10 ^ 9" by simp
    with b have "\<bar>c' - c - dt\<bar> \<le> \<bar>dt\<bar> / 10 ^ 9" unfolding d by linarith
    ultimately show ?thesis by blast
  qed
  with w cw c near show ?thesis by auto
qed

text \<open>An instance of C4: the clock after 299 frames, and the last step.\<close>

theorem clock_is_frames_times_dt_witness:
  "\<exists>w c c'. sim_loop demo_engine FRAME_RATE (py_range 299) (initial_world 0) = Inr w \<and>
         current_time w = Finite c \<and>
         \<bar>c - 299 * (4803839602528529 / 288230376151711744)\<bar>
           \<le> \<bar>299 * (4803839602528529 / 288230376151711744)\<bar> / 10 ^ 9 \<and>
         fadd (Finite c) (Finite (4803839602528529 / 288230376151711744)) = Finite c' \<and>
         \<bar>c' - c - 4803839602528529 / 288230376151711744\<bar>
           \<le> \<bar>4803839602528529 / 288230376151711744\<bar> / 10 ^ 9"
proof -
  have le: "int 299 \<le> TOTAL_FRAMES" and lt: "int 299 < TOTAL_FRAMES"
    by (simp_all add: TOTAL_FRAMES_def FRAME_RATE_def DURATION_def)
  from clock_is_frames_times_dt [OF truediv_frame_rate le, of demo_engine 0] lt
  obtain w c c' where "sim_loop demo_engine FRAME_RATE (py_range (int 299)) (initial_world 0) = Inr w"
    and "current_time w = Finite c"
    and "\<bar>c - real 299 * (4803839602528529 / 288230376151711744)\<bar>
           \<le> \<bar>real 299 * (4803839602528529 / 288230376151711744)\<bar> / 10 ^ 9"
    and "fadd (current_time w) (Finite (4803839602528529 / 288230376151711744)) = Finite c'"
    and "\<bar>c' - c - 4803839602528529 / 288230376151711744\<bar>
           \<le> \<bar>4803839602528529 / 288230376151711744\<bar> / 10 ^ 9"
    by blast
  then show ?thesis by (intro exI [of _ w] exI [of _ c] exI [of _ c']) (simp del: fadd.simps)
qed

subsection \<open>C5: the timestamps are recorded in non-decreasing order\<close>

text \<open>
  Claim C5. For every engine, every positive frame rate and every duration, the
  simulation ends without error, and in its list \<^verbatim>\<open>collision_times\<close> an earlier entry is
  \<^verbatim>\<open><=\<close> every later one.
\<close>

theorem collision_times_nondecreasing:
  fixes e :: 's
  assumes "0 < frame_rate"
  shows "\<exists>w. simulate step e frame_rate duration = Inr w \<and>
           (\<forall>i j. i < j \<longrightarrow> j < length (collision_times w) \<longrightarrow>
                  fle (collision_times w ! i) (collision_times w ! j))"
proof -
  from truediv_one_pos [OF assms] obtain d
    where dt: "truediv 1 frame_rate = Inr (Finite d)" and d: "0 \<le> d" by blast
  let ?I = "\<lambda>(n::nat) (v :: 's world). regular (current_time v) \<and>
              sorted_wrt fle (collision_times v) \<and>
              (\<forall>t\<in>set (collision_times v). fle t (current_time v))"
  let ?fs = "py_range (frame_rate * duration)"
  have "\<exists>w. sim_loop step frame_rate ?fs (initial_world e) = Inr w \<and> ?I (length ?fs) w"
  proof (rule sim_loop_steps [OF dt])
    show "?I 0 (initial_world e)" by (simp add: initial_world_def is_double_zero)
  next
    fix n and v :: "'s world"
    assume inv: "?I n v"
    let ?c = "current_time v"
    let ?v' = "advance_frame v (Finite d) (step (engine v) (Finite d)) (?fs ! n)"
    from inv have reg: "regular ?c" by simp
    from fadd_regular [OF reg d]
    have reg': "regular (fadd ?c (Finite d))" and le: "fle ?c (fadd ?c (Finite d))" by simp_all
    have 1: "regular (current_time ?v')" using reg' by (simp add: advance_frame_fields)
    have 2: "sorted_wrt fle (collision_times ?v')"
      using inv fle_refl [OF reg]
      by (auto simp: advance_frame_fields sorted_wrt_append sorted_wrt_replicate_refl)
    have 3: "\<forall>t\<in>set (collision_times ?v'). fle t (current_time ?v')"
    proof
      fix t assume "t \<in> set (collision_times ?v')"
      then have "fle t ?c" using inv fle_refl [OF reg]
        by (auto simp: advance_frame_fields)
      then have "fle t (fadd ?c (Finite d))" using le by (rule fle_trans)
      then show "fle t (current_time ?v')" by (simp add: advance_frame_fields)
    qed
    from 1 2 3 show "?I (Suc n) ?v'" by simp
  qed
  then obtain w where "simulate step e frame_rate duration = Inr w"
    and "sorted_wrt fle (collision_times w)"
    by (auto simp: simulate_def)
  then show ?thesis by (auto simp: sorted_wrt_iff_nth_less)
qed

text \<open>
  An instance of C5: the script's frame rate and duration, with the second sample
  engine. Of its three timestamps the first two are equal and the third is greater, and
  in the other order the third and the second are not \<^verbatim>\<open><=\<close>.
\<close>

theorem collision_times_nondecreasing_witness:
  "0 < FRAME_RATE \<and>
   (\<exists>w. simulate bounce_engine 0 FRAME_RATE DURATION = Inr w \<and>
        collision_times w =
          [Finite (4803839602528529 / 288230376151711744),
           Finite (4803839602528529 / 288230376151711744),
           Finite (3602879701896397 / 72057594037927936)] \<and>
        fle (collision_times w ! 0) (collision_times w ! 1) \<and>
        fle (collision_times w ! 1) (collision_times w ! 2) \<and>
        fle (collision_times w ! 0) (collision_times w ! 2) \<and>
        \<not> fle (collision_times w ! 2) (collision_times w ! 1))"
proof -
  have pos: "0 < FRAME_RATE" by (simp add: FRAME_RATE_def)
  from collision_times_nondecreasing [OF pos, of bounce_engine 0 DURATION] obtain w
    where w: "simulate bounce_engine 0 FRAME_RATE DURATION = Inr w"
      and ord: "\<And>i j. i < j \<Longrightarrow> j < length (collision_times w) \<Longrightarrow>
                  fle (collision_times w ! i) (collision_times w ! j)"
    by blast
  from bounce_run w have t: "collision_times w =
          [Finite (4803839602528529 / 288230376151711744),
           Finite (4803839602528529 / 288230376151711744),
           Finite (3602879701896397 / 72057594037927936)]"
    by simp
  have "fle (collision_times w ! 0) (collision_times w ! 1)"
    and "fle (collision_times w ! 1) (collision_times w ! 2)"
    and "fle (collision_times w ! 0) (collision_times w ! 2)"
    by (rule ord; simp add: t)+
  moreover have "\<not> fle (collision_times w ! 2) (collision_times w ! 1)"
    by (simp add: t)
  ultimately show ?thesis using pos w t by blast
qed

subsection \<open>C6: there is no check of the configuration\<close>

text \<open>
  Claim C6 says that a duration of zero is rejected with an \<^verbatim>\<open>InvalidConfiguration\<close>
  error. With the frame rate of the script and a duration of zero the simulation
  returns normally, in its initial state.
\<close>

theorem no_configuration_check_counterexample:
  "simulate demo_engine 0 FRAME_RATE 0 = Inr (initial_world 0)"
  by (simp add: simulate_def py_range_def)

text \<open>
  Claim C6, as amended. Whenever \<open>frame_rate * duration \<le> 0\<close>, in particular for a duration
  of zero, the loop runs no iteration and raises nothing: no frame is stepped or drawn,
  the clock stays at \<open>0.0\<close> and no collision is recorded.
\<close>

theorem empty_run_without_error:
  "frame_rate * duration \<le> 0 \<Longrightarrow> simulate step e frame_rate duration = Inr (initial_world e)"
  by (simp add: simulate_def py_range_def)

text \<open>An instance of the amended C6 at a duration of zero.\<close>

theorem empty_run_without_error_witness:
  "(60::int) * 0 \<le> 0 \<and> simulate demo_engine 0 60 0 = Inr (initial_world 0)"
  using empty_run_without_error [of 60 0 demo_engine 0] by simp

subsection \<open>C7: the collision sound is generated only when its file is absent\<close>

text \<open>
  Claim C7. If a file exists at \<open>collision_sound_path\<close>, the acquisition step does not
  call \<^verbatim>\<open>generate_collision_sound\<close> and leaves every file as it is; the sound is
  generated exactly when the file is absent; and a second acquisition after a first one
  never generates and changes nothing.
\<close>

theorem clip_caching_idempotent:
  "(fs collision_sound_path = Some clip \<longrightarrow> acquire_collision_sound tone fs = (fs, False)) \<and>
   (snd (acquire_collision_sound tone fs) \<longleftrightarrow> fs collision_sound_path = None) \<and>
   acquire_collision_sound tone' (fst (acquire_collision_sound tone fs)) =
     (fst (acquire_collision_sound tone fs), False)"
  by (simp add: acquire_collision_sound_def generate_collision_sound_def)

text \<open>An instance of C7 with the file present.\<close>

theorem clip_caching_idempotent_witness:
  "acquire_collision_sound [7] [collision_sound_path \<mapsto> [1, 2]] =
     ([collision_sound_path \<mapsto> [1, 2]], False)"
  using clip_caching_idempotent [of "[collision_sound_path \<mapsto> [1, 2]]" "[1, 2]" "[7]"]
  by simp

subsection \<open>C9: a timestamp is the clock before the step\<close>

text \<open>
  Claim C9 says that a collision during the \<open>n\<close>-th call of \<^verbatim>\<open>space.step\<close> is recorded as
  \<open>(n - 1) * dt\<close>. The sample engine has its one collision during the seventh call. The
  timestamp recorded is the sum of six rounded additions of \<open>dt\<close>, 0.09999999999999999,
  which is neither the float \<^verbatim>\<open>6 * dt\<close> (0.1) nor the real number \<open>6 * dt\<close>.
\<close>

theorem timestamp_is_not_a_multiple_counterexample:
  "map_sum id collision_times (simulate demo_engine 0 FRAME_RATE DURATION) =
     Inr [Finite (7205759403792793 / 72057594037927936)] \<and>
   truediv 1 FRAME_RATE = Inr (Finite (4803839602528529 / 288230376151711744)) \<and>
   fmul (Finite 6) (Finite (4803839602528529 / 288230376151711744)) =
     Finite (3602879701896397 / 36028797018963968) \<and>
   (7205759403792793 / 72057594037927936 :: real) \<noteq> 3602879701896397 / 36028797018963968 \<and>
   (7205759403792793 / 72057594037927936 :: real) \<noteq> 6 * (4803839602528529 / 288230376151711744)"
proof -
  from demo_run have "map_sum id collision_times (simulate demo_engine 0 FRAME_RATE DURATION) =
     Inr [Finite (7205759403792793 / 72057594037927936)]" by auto
  moreover have "fmul (Finite 6) (Finite (4803839602528529 / 288230376151711744)) =
     Finite (3602879701896397 / 36028797018963968)"
    by (simp add: float_eval)
  ultimately show ?thesis by (simp add: truediv_frame_rate del: fmul.simps)
qed

text \<open>
  Claim C9, as amended. A collision resolved during the \<open>n\<close>-th call of \<^verbatim>\<open>space.step\<close>
  (\<open>1 \<le> n \<le> TOTAL_FRAMES\<close>) is recorded with the value the clock has before the increment
  of that iteration, which is \<open>dt\<close> added \<open>n - 1\<close> times to \<open>0.0\<close> in floating point; that value
  is within a relative \<open>10\<^sup>-\<^sup>9\<close> of \<open>(n - 1) * dt\<close>. The frame drawn in the same iteration
  carries the timestamp plus \<open>dt\<close>, rounded. Every timestamp of the whole run is one of
  these sums, for some \<open>k\<close> with \<open>0 \<le> k \<le> TOTAL_FRAMES - 1\<close>.
\<close>

theorem timestamp_is_clock_before_step:
  fixes e :: 's
  assumes dt: "truediv 1 FRAME_RATE = Inr dt" and n: "1 \<le> n" "int n \<le> TOTAL_FRAMES"
  shows "\<exists>w w' wf.
           sim_loop step FRAME_RATE (py_range (int n - 1)) (initial_world e) = Inr w \<and>
           sim_loop step FRAME_RATE (py_range (int n)) (initial_world e) = Inr w' \<and>
           current_time w = clock_after dt (n - 1) \<and>
           collision_times w' =
             collision_times w @ replicate (snd (step (engine w) dt)) (clock_after dt (n - 1)) \<and>
           frames w' =
             frames w @ [(n - 1, fadd (clock_after dt (n - 1)) dt, fst (step (engine w) dt))] \<and>
           simulate step e FRAME_RATE DURATION = Inr wf \<and>
           set (collision_times wf) \<subseteq> clock_after dt ` {0..<nat TOTAL_FRAMES} \<and>
           (\<exists>c d. dt = Finite d \<and> clock_after dt (n - 1) = Finite c \<and>
                  \<bar>c - real (n - 1) * d\<bar> \<le> \<bar>real (n - 1) * d\<bar> / 10 ^ 9)"
proof -
  obtain m where m: "n = Suc m" using n(1) by (cases n) simp_all
  from sim_loop_clock [OF dt, of step "py_range (int m)" e] obtain w
    where w: "sim_loop step FRAME_RATE (py_range (int m)) (initial_world e) = Inr w"
      and cw: "current_time w = clock_after dt m"
    by auto
  define w' where "w' = advance_frame w dt (step (engine w) dt) m"
  have w': "sim_loop step FRAME_RATE (py_range (int n)) (initial_world e) = Inr w'"
    unfolding m py_range_Suc by (simp add: sim_loop_append w dt w'_def)
  from sim_loop_clock [OF dt, of step "py_range (FRAME_RATE * DURATION)" e] obtain wf
    where wf: "simulate step e FRAME_RATE DURATION = Inr wf"
      and tf: "set (collision_times wf) \<subseteq> clock_after dt ` {0..<nat TOTAL_FRAMES}"
    by (auto simp: simulate_def TOTAL_FRAMES_def)
  from dt have d: "dt = Finite (4803839602528529 / 288230376151711744)"
    by (simp add: truediv_frame_rate)
  from n(2) have "m \<le> 300" by (simp add: m TOTAL_FRAMES_def FRAME_RATE_def DURATION_def)
  from clock_after_table [OF this]
  have near: "\<exists>c d. dt = Finite d \<and> clock_after dt m = Finite c \<and>
                  \<bar>c - real m * d\<bar> \<le> \<bar>real m * d\<bar> / 10 ^ 9"
    unfolding d by blast
  have "int n - 1 = int m" by (simp add: m)
  with w w' cw wf tf near show ?thesis
    by (simp add: m w'_def advance_frame_fields cw)
qed

text \<open>An instance of the amended C9: the seventh call of the sample engine.\<close>

theorem timestamp_is_clock_before_step_witness:
  "\<exists>w w'. sim_loop demo_engine FRAME_RATE (py_range 6) (initial_world 0) = Inr w \<and>
          sim_loop demo_engine FRAME_RATE (py_range 7) (initial_world 0) = Inr w' \<and>
          current_time w = Finite (7205759403792793 / 72057594037927936) \<and>
          collision_times w' =
            collision_times w @
            replicate (snd (demo_engine (engine w) (Finite (4803839602528529 / 288230376151711744))))
              (Finite (7205759403792793 / 72057594037927936))"
proof -
  have "1 \<le> (7::nat)" and "int 7 \<le> TOTAL_FRAMES"
    by (simp_all add: TOTAL_FRAMES_def FRAME_RATE_def DURATION_def)
  from timestamp_is_clock_before_step [OF truediv_frame_rate this, of demo_engine 0]
  show ?thesis by (auto simp: clock_after_six)
qed

subsection \<open>C10: no recorded event is dropped\<close>

text \<open>
  Claim C10. The simulation of the script ends without error. The float
  \<^verbatim>\<open>(TOTAL_FRAMES - 1) * (1 / FRAME_RATE)\<close> is finite and less than \<^verbatim>\<open>DURATION\<close>, and every
  recorded timestamp is at most that float. For every recorded timestamp
  \<^verbatim>\<open>int(t * 1000)\<close> is an offset from 0 to less than \<^verbatim>\<open>DURATION * 1000\<close>, so that on a
  buffer as long as the track the loop of \<^verbatim>\<open>generate_audio_track\<close> takes the branch of the
  overlay. Hence the script as a whole, whatever files exist at its start, ends without
  error and exports the silent track with the clip overlaid once for every recorded
  timestamp, at the offset of that timestamp, in order.
\<close>

theorem overlay_guard_always_holds:
  fixes e :: 's
  assumes dt: "truediv 1 FRAME_RATE = Inr dt"
  shows "\<exists>w b. simulate step e FRAME_RATE DURATION = Inr w \<and>
           fmul (Finite (of_int (TOTAL_FRAMES - 1))) dt = Finite b \<and> b < of_int DURATION \<and>
           (\<forall>t\<in>set (collision_times w).
              fle t (Finite b) \<and>
              (\<exists>ms. py_int (fmul t (Finite 1000)) = Inr ms \<and> 0 \<le> ms \<and> ms < DURATION * 1000 \<and>
                 (\<forall>audio clip. length audio = length (silent (DURATION * 1000)) \<longrightarrow>
                    overlay_collision clip audio t = Inr (overlay audio clip ms)))) \<and>
           (\<forall>tone fs. \<exists>fs2 clip offsets.
              script tone step e fs = Inr (w, fs2) \<and>
              fs2 AUDIO_OUTPUT =
                Some (foldl (\<lambda>seg ms. overlay seg clip ms) (silent (DURATION * 1000)) offsets) \<and>
              list_all2 (\<lambda>t ms. py_int (fmul t (Finite 1000)) = Inr ms)
                (collision_times w) offsets)"
proof -
  let ?d = "4803839602528529 / 288230376151711744 :: real"
  let ?b = "5610734535765743 / 1125899906842624 :: real"
  let ?o = "5479232945083733 / 1099511627776 :: real"
  from dt have d: "dt = Finite ?d" by (simp add: truediv_frame_rate)
  have frames: "nat (FRAME_RATE * DURATION) = 300"
    by (simp add: FRAME_RATE_def DURATION_def)
  from sim_loop_clock [OF dt, of step "py_range (FRAME_RATE * DURATION)" e] obtain w
    where w: "simulate step e FRAME_RATE DURATION = Inr w"
      and times: "set (collision_times w) \<subseteq> clock_after dt ` {0..<300}"
    by (auto simp: simulate_def frames)
  have b: "fmul (Finite (of_int (TOTAL_FRAMES - 1))) dt = Finite ?b"
    using last_frame_bound by (simp add: d TOTAL_FRAMES_def FRAME_RATE_def DURATION_def)
  have b5: "?b < of_int DURATION" by (simp add: DURATION_def)
  have each: "fle t (Finite ?b) \<and>
              (\<exists>ms. py_int (fmul t (Finite 1000)) = Inr ms \<and> 0 \<le> ms \<and> ms < DURATION * 1000 \<and>
                 (\<forall>audio clip. length audio = length (silent (DURATION * 1000)) \<longrightarrow>
                    overlay_collision clip audio t = Inr (overlay audio clip ms)))"
    if "t \<in> set (collision_times w)" for t
  proof -
    from that times obtain k where k: "k < 300" and t: "t = clock_after dt k" by auto
    from k have "k \<le> 300" by simp
    from clock_after_table [OF this] k obtain c
      where c: "t = Finite c" and c0: "0 \<le> c" and cb: "c \<le> ?b"
      unfolding t d by blast
    define y where "y = round_to_double (c * 1000)"
    have "0 \<le> c * 1000" using c0 by simp
    then have y0: "0 \<le> y" unfolding y_def by (rule round_to_double_nonneg)
    have "c * 1000 \<le> ?b * 1000" using cb by simp
    then have "y \<le> round_to_double (?b * 1000)" unfolding y_def by (rule round_to_double_mono)
    then have yo: "y \<le> ?o" by (simp only: last_frame_offset)
    have "?o < 2 ^ 1024"
    proof -
      have "?o < (2::real) ^ 13" by simp
      also have "\<dots> \<le> 2 ^ 1024" by (rule power_increasing) simp_all
      finally show ?thesis .
    qed
    with y0 yo have "\<bar>y\<bar> < 2 ^ 1024" by linarith
    then have m: "fmul t (Finite 1000) = Finite y"
      by (simp add: c to_double_def y_def)
    have ms: "py_int (fmul t (Finite 1000)) = Inr \<lfloor>y\<rfloor>" using y0 by (simp add: m del: fmul.simps)
    have f0: "0 \<le> \<lfloor>y\<rfloor>" using y0 by simp
    have "\<lfloor>y\<rfloor> \<le> \<lfloor>?o\<rfloor>" using yo by (rule floor_mono)
    also have "\<lfloor>?o\<rfloor> = 4983" by simp
    finally have f1: "\<lfloor>y\<rfloor> < DURATION * 1000" by (simp add: DURATION_def)
    have "overlay_collision clip audio t = Inr (overlay audio clip \<lfloor>y\<rfloor>)"
      if "length audio = length (silent (DURATION * 1000))" for audio clip
      using that f1 by (simp add: overlay_collision_def ms silent_def DURATION_def del: fmul.simps)
    with ms f0 f1 cb show ?thesis by (auto simp: c simp del: fmul.simps)
  qed
  have whole: "\<exists>fs2 clip offsets.
              script tone step e fs = Inr (w, fs2) \<and>
              fs2 AUDIO_OUTPUT =
                Some (foldl (\<lambda>seg ms. overlay seg clip ms) (silent (DURATION * 1000)) offsets) \<and>
              list_all2 (\<lambda>t ms. py_int (fmul t (Finite 1000)) = Inr ms)
                (collision_times w) offsets"
    for tone fs
  proof -
    let ?fs1 = "fst (acquire_collision_sound tone fs)"
    let ?a = "silent (DURATION * 1000)"
    obtain clip where clip: "?fs1 collision_sound_path = Some clip"
      using acquire_collision_sound_exists by blast
    have len: "int (length ?a) = DURATION * 1000" by (simp add: silent_def DURATION_def)
    have "\<forall>t\<in>set (collision_times w).
            \<exists>ms. py_int (fmul t (Finite 1000)) = Inr ms \<and> ms < int (length ?a)"
      using each unfolding len by blast
    from overlay_collisions_all [OF this, of clip] obtain offsets
      where ov: "overlay_collisions clip ?a (collision_times w) =
                   Inr (foldl (\<lambda>seg ms. overlay seg clip ms) ?a offsets)"
        and offs: "list_all2 (\<lambda>t ms. py_int (fmul t (Finite 1000)) = Inr ms)
                     (collision_times w) offsets"
      by blast
    let ?fs2 = "?fs1(AUDIO_OUTPUT \<mapsto> foldl (\<lambda>seg ms. overlay seg clip ms) ?a offsets)"
    have "script tone step e fs = Inr (w, ?fs2)"
      by (simp add: script_def Let_def w generate_audio_track_def silent_segment_script clip ov
          del: ms_of_seconds.simps)
    with offs show ?thesis by (intro exI [of _ ?fs2] exI [of _ clip] exI [of _ offsets]) simp
  qed
  from w b b5 each whole show ?thesis by blast
qed

text \<open>
  An instance of C10: the timestamp of the sample engine has offset 99 and is overlaid.
\<close>

theorem overlay_guard_always_holds_witness:
  "\<exists>w. simulate demo_engine 0 FRAME_RATE DURATION = Inr w \<and>
       collision_times w = [Finite (7205759403792793 / 72057594037927936)] \<and>
       py_int (fmul (Finite (7205759403792793 / 72057594037927936)) (Finite 1000)) = Inr 99 \<and>
       overlay_collision [3, 4] (silent (DURATION * 1000))
           (Finite (7205759403792793 / 72057594037927936)) =
         Inr (overlay (silent (DURATION * 1000)) [3, 4] 99)"
proof -
  let ?t = "Finite (7205759403792793 / 72057594037927936)"
  from overlay_guard_always_holds [OF truediv_frame_rate, of demo_engine 0] demo_run
  obtain w ms where w: "simulate demo_engine 0 FRAME_RATE DURATION = Inr w"
    and t: "collision_times w = [?t]"
    and ms: "py_int (fmul ?t (Finite 1000)) = Inr ms"
    and ov: "\<forall>audio clip. length audio = length (silent (DURATION * 1000)) \<longrightarrow>
               overlay_collision clip audio ?t = Inr (overlay audio clip ms)"
    by (auto simp del: fmul.simps)
  have "py_int (fmul ?t (Finite 1000)) = Inr 99" by (simp add: float_eval)
  with ms have "ms = 99" by (simp del: fmul.simps)
  with w t ms ov show ?thesis by (auto simp del: fmul.simps)
qed

end
